theory Spec2Isabelle
  imports Complex_Main "HOL-Library.AList" "HOL-Library.Log_Nat"
begin

section \<open>APES orchestration engine: a model of the source\<close>

text \<open>
  Strings are modelled as \<open>string\<close> (lists of 8-bit code units), a \<open>Map\<close> as an
  association list in insertion order (\<open>Map.set\<close> is \<open>AList.update\<close>: an existing key
  keeps its position), a \<open>Set\<close> as a duplicate-free list in insertion order,
  \<open>Date.now()\<close> as an explicit argument.  The numbers of the agent registry and of
  the learning system are IEEE 754 doubles, the type \<open>number\<close> below.  The numbers of
  the intent classifier and of the complexity scorer are exact reals, with
  \<open>Math.round x\<close> as \<open>\<lfloor>x + 1/2\<rfloor>\<close>, which is \<open>round x\<close>.
\<close>

subsection \<open>Numbers\<close>

text \<open>
  A JavaScript number is an IEEE 754 double: a finite value, one of the two
  infinities, or \<open>NaN\<close>.  A finite number is given by its exact value, a real; the
  two zeros are one value (the code modelled here divides by the literal \<open>1000\<close>
  only and never takes the sign of a zero).  An operation computes the exact
  result and rounds it to the nearest double, a tie to the one with the even
  significand: \<open>round_even\<close> rounds to an integer; \<open>expo x\<close> is the exponent of \<open>x\<close>,
  the integer \<open>e\<close> with \<open>2^e \<le> |x| < 2^(e+1)\<close>; \<open>ulp x\<close> is the distance of
  neighbouring doubles around \<open>x\<close>: \<open>2^(e-52)\<close>, and \<open>2^(-1074)\<close> for the subnormal
  numbers, those below \<open>2^(-1022)\<close>; \<open>rn x\<close> is \<open>x\<close> rounded to a multiple of \<open>ulp x\<close>;
  a result of magnitude \<open>2^1024\<close> or more is an infinity.
\<close>

datatype number = Finite real | PosInfinity | NegInfinity | NaN

definition round_even :: "real \<Rightarrow> int" where
  "round_even x =
     (let f = \<lfloor>x\<rfloor>; r = x - of_int f
      in if r < 1/2 then f else if 1/2 < r then f + 1 else if even f then f else f + 1)"

definition expo :: "real \<Rightarrow> int" where
  "expo x = (if 1 \<le> \<bar>x\<bar> then int (floorlog 2 (nat \<lfloor>\<bar>x\<bar>\<rfloor>)) - 1
             else - int (floorlog 2 (nat (\<lceil>1 / \<bar>x\<bar>\<rceil> - 1))))"

definition pow2 :: "int \<Rightarrow> real" where
  "pow2 e = (if 0 \<le> e then 2 ^ nat e else 1 / 2 ^ nat (- e))"

definition ulp :: "real \<Rightarrow> real" where
  "ulp x = pow2 (max (expo x) (- 1022) - 52)"

definition rn :: "real \<Rightarrow> real" where
  "rn x = of_int (round_even (x / ulp x)) * ulp x"

definition to_number :: "real \<Rightarrow> number" where
  "to_number x =
     (let y = rn x
      in if 2 ^ 1024 \<le> y then PosInfinity
         else if y \<le> - (2 ^ 1024) then NegInfinity
         else Finite y)"


text \<open>The arithmetic of numbers: the exact result, rounded.\<close>

fun js_neg :: "number \<Rightarrow> number" where
  "js_neg (Finite x) = Finite (- x)"
| "js_neg PosInfinity = NegInfinity"
| "js_neg NegInfinity = PosInfinity"
| "js_neg NaN = NaN"

fun js_add :: "number \<Rightarrow> number \<Rightarrow> number" where
  "js_add (Finite x) (Finite y) = to_number (x + y)"
| "js_add NaN b = NaN"
| "js_add a NaN = NaN"
| "js_add PosInfinity NegInfinity = NaN"
| "js_add NegInfinity PosInfinity = NaN"
| "js_add PosInfinity b = PosInfinity"
| "js_add a PosInfinity = PosInfinity"
| "js_add NegInfinity b = NegInfinity"
| "js_add a NegInfinity = NegInfinity"

definition js_sub :: "number \<Rightarrow> number \<Rightarrow> number" where
  "js_sub a b = js_add a (js_neg b)"

fun js_mul :: "number \<Rightarrow> number \<Rightarrow> number" where
  "js_mul (Finite x) (Finite y) = to_number (x * y)"
| "js_mul NaN b = NaN"
| "js_mul a NaN = NaN"
| "js_mul (Finite x) PosInfinity =
     (if x = 0 then NaN else if 0 < x then PosInfinity else NegInfinity)"
| "js_mul (Finite x) NegInfinity =
     (if x = 0 then NaN else if 0 < x then NegInfinity else PosInfinity)"
| "js_mul PosInfinity (Finite y) =
     (if y = 0 then NaN else if 0 < y then PosInfinity else NegInfinity)"
| "js_mul NegInfinity (Finite y) =
     (if y = 0 then NaN else if 0 < y then NegInfinity else PosInfinity)"
| "js_mul PosInfinity PosInfinity = PosInfinity"
| "js_mul PosInfinity NegInfinity = NegInfinity"
| "js_mul NegInfinity PosInfinity = NegInfinity"
| "js_mul NegInfinity NegInfinity = PosInfinity"

fun js_div :: "number \<Rightarrow> number \<Rightarrow> number" where
  "js_div (Finite x) (Finite y) =
     (if y = 0 then (if x = 0 then NaN else if 0 < x then PosInfinity else NegInfinity)
      else to_number (x / y))"
| "js_div NaN b = NaN"
| "js_div a NaN = NaN"
| "js_div (Finite x) b = Finite 0"
| "js_div PosInfinity (Finite y) = (if 0 \<le> y then PosInfinity else NegInfinity)"
| "js_div NegInfinity (Finite y) = (if 0 \<le> y then NegInfinity else PosInfinity)"
| "js_div a b = NaN"

text \<open>\<open>a < b\<close> and \<open>a <= b\<close>: false when an operand is \<open>NaN\<close>.\<close>

fun js_lt :: "number \<Rightarrow> number \<Rightarrow> bool" where
  "js_lt (Finite x) (Finite y) = (x < y)"
| "js_lt (Finite x) PosInfinity = True"
| "js_lt NegInfinity (Finite y) = True"
| "js_lt NegInfinity PosInfinity = True"
| "js_lt a b = False"

fun js_le :: "number \<Rightarrow> number \<Rightarrow> bool" where
  "js_le NaN b = False"
| "js_le a NaN = False"
| "js_le a b = (\<not> js_lt b a)"

text \<open>\<open>Math.min\<close> and \<open>Math.max\<close> of two arguments, and \<open>Math.round\<close>: the integer
  nearest to the argument, the larger one of two.\<close>

fun Math_min :: "number \<Rightarrow> number \<Rightarrow> number" where
  "Math_min NaN b = NaN"
| "Math_min a NaN = NaN"
| "Math_min a b = (if js_lt b a then b else a)"

fun Math_max :: "number \<Rightarrow> number \<Rightarrow> number" where
  "Math_max NaN b = NaN"
| "Math_max a NaN = NaN"
| "Math_max a b = (if js_lt a b then b else a)"

fun Math_round :: "number \<Rightarrow> number" where
  "Math_round (Finite x) = Finite (of_int \<lfloor>x + 1 / 2\<rfloor>)"
| "Math_round a = a"

text \<open>A decimal literal of the source denotes the number nearest to it.\<close>

definition lit :: "real \<Rightarrow> number" where
  "lit x = to_number x"

text \<open>\<open>xs.sort(cmp)\<close>: the sort is stable; \<open>x\<close> goes behind \<open>y\<close> when \<open>cmp(x, y) > 0\<close>.
  With a comparator that orders the elements (as a difference of numbers does when
  none is \<open>NaN\<close>) every stable sort returns this list.\<close>

fun insort_cmp :: "('a \<Rightarrow> 'a \<Rightarrow> number) \<Rightarrow> 'a \<Rightarrow> 'a list \<Rightarrow> 'a list" where
  "insort_cmp cmp x [] = [x]"
| "insort_cmp cmp x (y # ys) =
     (if js_lt (Finite 0) (cmp x y) then y # insort_cmp cmp x ys else x # y # ys)"

definition js_sort :: "('a \<Rightarrow> 'a \<Rightarrow> number) \<Rightarrow> 'a list \<Rightarrow> 'a list" where
  "js_sort cmp xs = foldr (insort_cmp cmp) xs []"

subsection \<open>Agent registry (agents/registry.js)\<close>

record agent_config =
  agent_id :: string
  role :: string
  agent_cluster :: string
  skills :: "string list"
  complexitySupported :: "string list"
  confidenceScore :: number
  avgExecutionTime :: number

record agent = agent_config +
  totalExecutions :: number
  failureRate :: number
  createdAt :: nat

record cluster =
  cluster_id :: string
  cluster_name :: string
  cluster_description :: string
  cluster_agents :: "string list"

record registry =
  agents :: "(string \<times> agent) list"
  clusters :: "(string \<times> cluster) list"

definition registerCluster :: "string \<Rightarrow> string \<Rightarrow> string \<Rightarrow> registry \<Rightarrow> registry" where
  "registerCluster cid nm descr reg =
     reg\<lparr>clusters := AList.update cid
            \<lparr>cluster_id = cid, cluster_name = nm, cluster_description = descr,
             cluster_agents = []\<rparr> (clusters reg)\<rparr>"

definition registerAgent :: "nat \<Rightarrow> agent_config \<Rightarrow> registry \<Rightarrow> registry" where
  "registerAgent now a reg =
     (let agentRecord = agent_config.extend a
            (agent.fields (lit 0) (lit 0) now);
          reg1 = reg\<lparr>agents := AList.update (agent_id a) agentRecord (agents reg)\<rparr>
      in case map_of (clusters reg1) (agent_cluster a) of
           None \<Rightarrow> reg1
         | Some c \<Rightarrow>
             reg1\<lparr>clusters := AList.update (agent_cluster a)
                     (c\<lparr>cluster_agents := cluster_agents c @ [agent_id a]\<rparr>) (clusters reg1)\<rparr>)"

definition mk_agent ::
  "string \<Rightarrow> string \<Rightarrow> string \<Rightarrow> string list \<Rightarrow> string list \<Rightarrow> number \<Rightarrow> number \<Rightarrow> agent_config" where
  "mk_agent i r c sk cs conf avg =
     \<lparr>agent_id = i, role = r, agent_cluster = c, skills = sk, complexitySupported = cs,
      confidenceScore = conf, avgExecutionTime = avg\<rparr>"

definition initializeDefaults :: "nat \<Rightarrow> registry \<Rightarrow> registry" where
  "initializeDefaults now =
     registerAgent now (mk_agent ''evaluator_agent_v1'' ''meta_evaluator'' ''evaluation''
        [''quality-check'', ''cross-validation'', ''consistency-check'']
        [''medium'', ''complex''] (lit 0.85) (lit 1.5))
   \<circ> registerCluster ''evaluation'' ''Memory & Evaluation Cluster''
        ''Meta-analysis, optimization tracking, pattern recognition''
   \<circ> registerAgent now (mk_agent ''performance_agent_v1'' ''performance_analyst'' ''analysis''
        [''profiling'', ''benchmark'', ''optimization'', ''bottleneck-analysis'']
        [''medium'', ''complex''] (lit 0.80) (lit 4.0))
   \<circ> registerAgent now (mk_agent ''test_agent_v1'' ''test_engineer'' ''analysis''
        [''unit-testing'', ''integration-testing'', ''e2e'', ''coverage'']
        [''simple'', ''medium'', ''complex''] (lit 0.83) (lit 2.5))
   \<circ> registerCluster ''analysis'' ''Analysis Cluster''
        ''Performance analysis, testing, auditing, benchmarks''
   \<circ> registerAgent now (mk_agent ''designer_agent_v1'' ''ux_designer'' ''uiux''
        [''wireframe'', ''mockup'', ''color-theory'', ''accessibility'', ''layout'']
        [''simple'', ''medium''] (lit 0.78) (lit 2.5))
   \<circ> registerAgent now (mk_agent ''frontend_agent_v1'' ''frontend_engineer'' ''uiux''
        [''react'', ''css'', ''html'', ''javascript'', ''responsive-design'']
        [''simple'', ''medium'', ''complex''] (lit 0.84) (lit 3.0))
   \<circ> registerCluster ''uiux'' ''UI/UX Cluster''
        ''Design, frontend development, styling, animation''
   \<circ> registerAgent now (mk_agent ''infra_agent_v1'' ''infrastructure_engineer'' ''devops''
        [''aws'', ''terraform'', ''networking'', ''security'', ''scaling'']
        [''complex''] (lit 0.76) (lit 5.0))
   \<circ> registerAgent now (mk_agent ''devops_agent_v1'' ''devops_engineer'' ''devops''
        [''docker'', ''kubernetes'', ''ci-cd'', ''cloud'', ''monitoring'']
        [''medium'', ''complex''] (lit 0.81) (lit 4.2))
   \<circ> registerCluster ''devops'' ''DevOps Cluster''
        ''Deployment, infrastructure, CI/CD, monitoring''
   \<circ> registerAgent now (mk_agent ''debugger_v1'' ''debugger'' ''coding''
        [''debugging'', ''error-trace'', ''fix'', ''testing'']
        [''simple'', ''medium'', ''complex''] (lit 0.79) (lit 2.8))
   \<circ> registerAgent now (mk_agent ''code_reviewer_v1'' ''code_reviewer'' ''coding''
        [''review'', ''security-audit'', ''best-practices'', ''optimization'']
        [''medium'', ''complex''] (lit 0.82) (lit 2.1))
   \<circ> registerAgent now (mk_agent ''code_agent_v2'' ''backend_engineer'' ''coding''
        [''nodejs'', ''api'', ''database'', ''typescript'', ''python'']
        [''simple'', ''medium'', ''complex''] (lit 0.87) (lit 3.4))
   \<circ> registerCluster ''coding'' ''Coding Cluster''
        ''Code generation, debugging, refactoring, testing''
   \<circ> registerAgent now (mk_agent ''planner_v1'' ''architect'' ''research''
        [''architecture'', ''planning'', ''decomposition'', ''roadmap'']
        [''medium'', ''complex''] (lit 0.80) (lit 3.0))
   \<circ> registerAgent now (mk_agent ''researcher_v1'' ''research_analyst'' ''research''
        [''web-search'', ''documentation'', ''summarization'', ''comparison'']
        [''simple'', ''medium'', ''complex''] (lit 0.85) (lit 2.0))
   \<circ> registerCluster ''research'' ''Research Cluster''
        ''Information gathering, documentation, and analysis''"

text \<open>The constructor: two empty maps, then \<open>initializeDefaults\<close>.\<close>

definition new_registry :: "nat \<Rightarrow> registry" where
  "new_registry now = initializeDefaults now \<lparr>agents = [], clusters = []\<rparr>"

definition getAgent :: "registry \<Rightarrow> string \<Rightarrow> agent option" where
  "getAgent reg i = map_of (agents reg) i"

record metrics =
  m_duration :: number
  m_failed :: bool

text \<open>
  \<open>updateAgentMetrics\<close> mutates the agent object held by the map; the statements are
  kept in the source's order: the moving average is overwritten before the
  confidence test reads it.
\<close>

definition updateAgentMetrics :: "string \<Rightarrow> metrics \<Rightarrow> registry \<Rightarrow> registry" where
  "updateAgentMetrics agentId m reg =
     (case map_of (agents reg) agentId of
        None \<Rightarrow> reg
      | Some a0 \<Rightarrow>
          (let a1 = a0\<lparr>totalExecutions := js_add (totalExecutions a0) (lit 1)\<rparr>;
               alpha = lit 0.3;
               a2 = a1\<lparr>avgExecutionTime :=
                      js_add (js_mul (avgExecutionTime a1) (js_sub (lit 1) alpha))
                             (js_mul (m_duration m) alpha)\<rparr>;
               a3 = (if m_failed m
                     then a2\<lparr>failureRate :=
                            js_add (js_mul (failureRate a2) (js_sub (lit 1) alpha)) alpha\<rparr>
                     else a2\<lparr>failureRate := js_mul (failureRate a2) (js_sub (lit 1) alpha)\<rparr>);
               a4 = (if \<not> m_failed m \<and> js_lt (m_duration m) (avgExecutionTime a3)
                     then a3\<lparr>confidenceScore :=
                            Math_min (lit 1.0) (js_add (confidenceScore a3) (lit 0.02))\<rparr>
                     else if m_failed m
                     then a3\<lparr>confidenceScore :=
                            Math_max (lit 0.1) (js_sub (confidenceScore a3) (lit 0.05))\<rparr>
                     else a3)
           in reg\<lparr>agents := AList.update agentId a4 (agents reg)\<rparr>))"

subsection \<open>Learning system (learning/learning-system.js)\<close>

record learning_config =
  confidenceBoost :: number
  confidencePenalty :: number
  minConfidence :: number
  maxConfidence :: number
  patternThreshold :: nat

record confidence_update =
  u_agentId :: string
  u_delta :: number
  u_reason :: string

record learning =
  config :: learning_config
  updateQueue :: "confidence_update list"

definition new_learning :: learning where
  "new_learning =
     \<lparr>config = \<lparr>confidenceBoost = lit 0.02, confidencePenalty = lit 0.05,
                 minConfidence = lit 0.1, maxConfidence = lit 1.0, patternThreshold = 3\<rparr>,
      updateQueue = []\<rparr>"

definition apply_one :: "learning_config \<Rightarrow> confidence_update \<Rightarrow> registry \<Rightarrow> registry" where
  "apply_one cfg u reg =
     (case getAgent reg (u_agentId u) of
        None \<Rightarrow> reg
      | Some a \<Rightarrow>
          (let newConfidence =
                 Math_max (minConfidence cfg)
                   (Math_min (maxConfidence cfg) (js_add (confidenceScore a) (u_delta u)))
           in reg\<lparr>agents := AList.update (u_agentId u)
                   (a\<lparr>confidenceScore :=
                        js_div (Math_round (js_mul newConfidence (lit 1000))) (lit 1000)\<rparr>)
                   (agents reg)\<rparr>))"

text \<open>\<open>applyUpdates\<close> returns the number applied, the learning system with its queue
  cleared, and the registry after the loop.\<close>

definition applyUpdates :: "learning \<Rightarrow> registry \<Rightarrow> nat \<times> learning \<times> registry" where
  "applyUpdates ls reg =
     (let reg' = fold (apply_one (config ls)) (updateQueue ls) reg;
          applied = length (updateQueue ls)
      in (applied, ls\<lparr>updateQueue := []\<rparr>, reg'))"

subsection \<open>Worker pool (class WorkerPool): the admission of jobs\<close>

text \<open>
  \<open>execute\<close> is an async function: between two of its awaits it runs without
  interruption, so a call of it is a sequence of at most three steps.  The entry
  tests the bound; then it either pushes a resolver onto \<open>queue\<close> and is suspended
  in \<open>waitForSlot\<close>, or increments \<open>activeWorkers\<close> and starts the worker.  A
  suspended call whose resolver has been called resumes in a later step (a promise
  reaction): it increments \<open>activeWorkers\<close>, without a second test, and starts the
  worker.  When the worker has settled, the completion updates the statistics,
  decrements \<open>activeWorkers\<close> and runs \<open>processQueue\<close>, which calls the resolver of
  the oldest waiter.  Steps of other calls can run between the call of a resolver
  and the resumption of its waiter.

  The state holds the fields of the pool and, for the calls under way, where each
  one is suspended: \<open>queue\<close> (the resolvers, each named by the job of its call),
  \<open>woken\<close> (resolver called, call not yet resumed; reactions run in the order in
  which they were queued) and \<open>in_flight\<close> (admitted, worker not yet settled).  A
  history is a list of steps; a step that cannot be taken (a resumption with no
  woken call, the completion of a job that is not in flight) ends it with \<open>None\<close>.
\<close>

record pool_state =
  maxWorkers :: int
  activeWorkers :: int
  queue :: "string list"
  totalExecuted :: nat
  totalFailed :: nat
  woken :: "string list"
  in_flight :: "string list"

definition new_pool :: "int \<Rightarrow> pool_state" where
  "new_pool n = \<lparr>maxWorkers = n, activeWorkers = 0, queue = [], totalExecuted = 0,
                  totalFailed = 0, woken = [], in_flight = []\<rparr>"

text \<open>\<open>this.activeWorkers++\<close> and the call of \<open>runWorker\<close>, up to its await.\<close>

definition admit :: "string \<Rightarrow> pool_state \<Rightarrow> pool_state" where
  "admit job p = p\<lparr>activeWorkers := activeWorkers p + 1, in_flight := in_flight p @ [job]\<rparr>"

definition processQueue :: "pool_state \<Rightarrow> pool_state" where
  "processQueue p =
     (if length (queue p) > 0 \<and> activeWorkers p < maxWorkers p
      then p\<lparr>queue := tl (queue p), woken := woken p @ [hd (queue p)]\<rparr>
      else p)"

datatype pool_event = Submit string | Resume | Settle string bool

definition pool_step :: "pool_event \<Rightarrow> pool_state \<Rightarrow> pool_state option" where
  "pool_step ev p =
     (case ev of
        Submit job \<Rightarrow>
          Some (if activeWorkers p \<ge> maxWorkers p
                then p\<lparr>queue := queue p @ [job]\<rparr>
                else admit job p)
      | Resume \<Rightarrow>
          (case woken p of
             [] \<Rightarrow> None
           | job # rest \<Rightarrow> Some (admit job (p\<lparr>woken := rest\<rparr>)))
      | Settle job resolved \<Rightarrow>
          if job \<in> set (in_flight p)
          then (let p1 = (if resolved then p\<lparr>totalExecuted := totalExecuted p + 1\<rparr>
                          else p\<lparr>totalFailed := totalFailed p + 1\<rparr>);
                    p2 = p1\<lparr>activeWorkers := activeWorkers p1 - 1,
                            in_flight := remove1 job (in_flight p1)\<rparr>
                in Some (processQueue p2))
          else None)"

definition pool_run :: "pool_event list \<Rightarrow> pool_state \<Rightarrow> pool_state option" where
  "pool_run evs p = fold (\<lambda>ev s. Option.bind s (pool_step ev)) evs (Some p)"

text \<open>A history in which no job is submitted while a woken call has not yet resumed.\<close>

fun undisturbed :: "pool_event list \<Rightarrow> pool_state \<Rightarrow> bool" where
  "undisturbed [] p = True"
| "undisturbed (ev # evs) p =
     ((case ev of Submit job \<Rightarrow> woken p = [] | Resume \<Rightarrow> True | Settle job resolved \<Rightarrow> True) \<and>
      (case pool_step ev p of None \<Rightarrow> True | Some p' \<Rightarrow> undisturbed evs p'))"


subsection \<open>Memory system (memory/memory-system.js), performance layer\<close>

record perf_entry =
  p_agentId :: "string option"
  p_taskId :: "string option"
  p_duration :: real
  p_success :: bool
  p_complexity :: string
  p_cluster :: "string option"

record perf_record = perf_entry +
  p_timestamp :: nat

record memory =
  performanceMemory :: "perf_record list"

definition new_memory :: memory where
  "new_memory = \<lparr>performanceMemory = []\<rparr>"

text \<open>\<open>xs.slice(-500)\<close> starts at \<open>max (length xs - 500) 0\<close>.\<close>

definition recordPerformance :: "nat \<Rightarrow> perf_entry \<Rightarrow> memory \<Rightarrow> memory" where
  "recordPerformance now entry mem =
     (let pushed = performanceMemory mem @ [perf_entry.extend entry (perf_record.fields now)]
      in if length pushed > 1000
         then mem\<lparr>performanceMemory := drop (length pushed - 500) pushed\<rparr>
         else mem\<lparr>performanceMemory := pushed\<rparr>)"

subsection \<open>Strings\<close>

text \<open>The white space of \<open>\s\<close> and of \<open>trim\<close> among the 8-bit code units: TAB, LF, VT, FF,
  CR, SP and NBSP.  \<open>toLowerCase\<close> on them: A-Z and the Latin-1 capitals.\<close>

definition is_ws :: "char \<Rightarrow> bool" where
  "is_ws c = ((of_char c :: nat) \<in> {9, 10, 11, 12, 13, 32, 160})"

definition trim :: "string \<Rightarrow> string" where
  "trim s = rev (dropWhile is_ws (rev (dropWhile is_ws s)))"

definition toLowerChar :: "char \<Rightarrow> char" where
  "toLowerChar c =
     (let n = (of_char c :: nat)
      in if (65 \<le> n \<and> n \<le> 90) \<or> (192 \<le> n \<and> n \<le> 222 \<and> n \<noteq> 215)
         then char_of (n + 32) else c)"

definition toLowerCase :: "string \<Rightarrow> string" where
  "toLowerCase s = map toLowerChar s"

definition startsWith :: "string \<Rightarrow> string \<Rightarrow> bool" where
  "startsWith s kw = (take (length kw) s = kw)"

text \<open>\<open>s.includes(kw)\<close>: \<open>kw\<close> occurs in \<open>s\<close> at some position.\<close>

fun str_includes :: "string \<Rightarrow> string \<Rightarrow> bool" where
  "str_includes [] kw = (kw = [])"
| "str_includes (c # cs) kw = (startsWith (c # cs) kw \<or> str_includes cs kw)"

text \<open>\<open>s.split(/\s+/)\<close>: every maximal run of white space separates two pieces; the
  empty string gives one empty piece.\<close>

function split_ws_from :: "string \<Rightarrow> string \<Rightarrow> string list" where
  "split_ws_from cur [] = [cur]"
| "split_ws_from cur (c # cs) =
     (if is_ws c then cur # split_ws_from [] (dropWhile is_ws cs)
      else split_ws_from (cur @ [c]) cs)"
  by pat_completeness auto
termination
  by (relation "measure (\<lambda>(cur, s). length s)")
     (auto simp: le_imp_less_Suc length_dropWhile_le)

definition split_ws :: "string \<Rightarrow> string list" where
  "split_ws s = split_ws_from [] s"

text \<open>A string-valued expression that may be \<open>null\<close> or \<open>undefined\<close> is truthy when
  it is present and not the empty string.\<close>

definition truthy :: "string option \<Rightarrow> bool" where
  "truthy v = (case v of None \<Rightarrow> False | Some s \<Rightarrow> s \<noteq> [])"

text \<open>A string that is empty or consists of white space only.\<close>

definition blank :: "string \<Rightarrow> bool" where
  "blank s = list_all is_ws s"

text \<open>\<open>xs.slice(0, e)\<close>: a negative end counts from the end of the array.\<close>

definition slice0 :: "int \<Rightarrow> 'a list \<Rightarrow> 'a list" where
  "slice0 e xs = (if e < 0 then take (nat (int (length xs) + e)) xs else take (nat e) xs)"

subsection \<open>Stage 1 and stage 2: parsing and the intent classifier\<close>

record parsed =
  raw :: string
  tokens :: "string list"
  p_length :: nat
  wordCount :: nat

definition parseInput :: "string \<Rightarrow> parsed" where
  "parseInput input =
     \<lparr>raw = input, tokens = split_ws input, p_length = length input,
      wordCount = length (split_ws input)\<rparr>"

record intent_pattern =
  pat_keywords :: "string list"
  pat_cluster :: string
  pat_priority :: string

definition patterns :: "(string \<times> intent_pattern) list" where
  "patterns =
    [(''code'', \<lparr>pat_keywords = [''build'', ''create'', ''implement'', ''code'', ''write'',
        ''develop'', ''function'', ''class'', ''api'', ''endpoint'', ''component'', ''module'',
        ''refactor'', ''fix'', ''bug'', ''debug''],
        pat_cluster = ''coding'', pat_priority = ''high''\<rparr>),
     (''research'', \<lparr>pat_keywords = [''research'', ''find'', ''search'', ''look up'',
        ''investigate'', ''analyze'', ''compare'', ''what is'', ''how does'', ''explain'',
        ''understand''],
        pat_cluster = ''research'', pat_priority = ''medium''\<rparr>),
     (''devops'', \<lparr>pat_keywords = [''deploy'', ''docker'', ''kubernetes'', ''ci/cd'', ''pipeline'',
        ''server'', ''cloud'', ''aws'', ''infrastructure'', ''monitor'', ''scale'', ''container''],
        pat_cluster = ''devops'', pat_priority = ''high''\<rparr>),
     (''design'', \<lparr>pat_keywords = [''design'', ''ui'', ''ux'', ''layout'', ''style'', ''theme'',
        ''color'', ''responsive'', ''animation'', ''interface'', ''mockup'', ''wireframe''],
        pat_cluster = ''uiux'', pat_priority = ''medium''\<rparr>),
     (''analysis'', \<lparr>pat_keywords = [''analyze'', ''evaluate'', ''report'', ''metrics'',
        ''performance'', ''benchmark'', ''test'', ''audit'', ''review'', ''optimize'', ''profile''],
        pat_cluster = ''analysis'', pat_priority = ''medium''\<rparr>),
     (''planning'', \<lparr>pat_keywords = [''plan'', ''architecture'', ''design system'', ''roadmap'',
        ''strategy'', ''structure'', ''organize'', ''breakdown'', ''decompose''],
        pat_cluster = ''research'', pat_priority = ''low''\<rparr>)]"

record intent_score =
  i_type :: string
  i_cluster :: string
  i_priority :: "string option"
  i_confidence :: real
  i_matched :: "string list"

record secondary_intent =
  s_type :: string
  s_confidence :: real

record intent = intent_score +
  secondary :: "secondary_intent list"

text \<open>\<open>scores.sort((a, b) => b.confidence - a.confidence)\<close>: a stable sort, largest
  confidence first; \<open>sort_key\<close> is a stable insertion sort.\<close>

definition classify :: "parsed \<Rightarrow> intent" where
  "classify p =
     (let inputLower = toLowerCase (raw p);
          scores = concat (map (\<lambda>(intentType, pattern).
                      let matched = filter (\<lambda>kw. str_includes inputLower kw) (pat_keywords pattern)
                      in if length matched > 0
                         then [\<lparr>i_type = intentType, i_cluster = pat_cluster pattern,
                                i_priority = Some (pat_priority pattern),
                                i_confidence = min (real (length matched) / 3) 1.0,
                                i_matched = matched\<rparr>]
                         else []) patterns);
          sorted = sort_key (\<lambda>sc. - i_confidence sc) scores
      in case sorted of
           [] \<Rightarrow> \<lparr>i_type = ''general'', i_cluster = ''research'', i_priority = None,
                   i_confidence = 0.3, i_matched = [], secondary = []\<rparr>
         | s0 # rest \<Rightarrow>
             intent_score.extend s0
               (intent.fields (map (\<lambda>sc. \<lparr>s_type = i_type sc, s_confidence = i_confidence sc\<rparr>) rest)))"

subsection \<open>Tasks, decompositions, complexity records\<close>

datatype status = Pending | Running | Completed | Failed | Skipped | Scheduled

record task =
  task_id :: string
  task_index :: nat
  description :: string
  task_type :: string
  task_cluster :: string
  dependsOn :: "string list"
  task_status :: status
  priority :: nat

record decomposition =
  tasks :: "task list"
  totalTasks :: nat
  hasParallelizable :: bool

record complexity_details =
  subtaskCount :: nat
  dependencyWeight :: real
  riskFactor :: real

record complexity =
  score :: real
  level :: string
  agentCount :: int
  waves :: int
  details :: complexity_details

subsection \<open>Stage 3: the task decomposer (orchestration/task-decomposer.js)\<close>

definition connectors :: "string list" where
  "connectors = [''and'', ''then'', ''also'', ''plus'', ''with'', ''after'']"

definition sequenceMarkers :: "string list" where
  "sequenceMarkers = [''then'', ''after'', ''once'', ''when'', ''finally'', ''next'']"

text \<open>
  The split pattern is \<open>/\b(and|then|also|plus|with|after)\b|[.;]\s*/gi\<close>.
  \<open>is_word_char\<close> is the class \<open>\w\<close>; \<open>word_boundary prev rest\<close> is \<open>\b\<close> at a position
  whose previous code unit is a word character iff \<open>prev\<close>, and whose remaining input
  is \<open>rest\<close>.  Under the \<open>i\<close> flag a code unit matches a letter of a connector iff its
  lower case is that letter.  \<open>match_at\<close> gives the capture (none for the second
  alternative) and the input left after the match; the alternatives are tried in
  order, and a connector matches only if the \<open>\b\<close> after it holds.
\<close>

definition is_word_char :: "char \<Rightarrow> bool" where
  "is_word_char c =
     (let n = (of_char c :: nat)
      in (48 \<le> n \<and> n \<le> 57) \<or> (65 \<le> n \<and> n \<le> 90) \<or> n = 95 \<or> (97 \<le> n \<and> n \<le> 122))"

definition word_boundary :: "bool \<Rightarrow> string \<Rightarrow> bool" where
  "word_boundary prev rest = (prev \<noteq> (case rest of [] \<Rightarrow> False | c # _ \<Rightarrow> is_word_char c))"

definition match_connector :: "bool \<Rightarrow> string \<Rightarrow> (string \<times> string) option" where
  "match_connector prev rest =
     (if word_boundary prev rest
      then (case find (\<lambda>k. toLowerCase (take (length k) rest) = k \<and>
                            word_boundary (is_word_char (last k)) (drop (length k) rest))
                   connectors of
              None \<Rightarrow> None
            | Some k \<Rightarrow> Some (take (length k) rest, drop (length k) rest))
      else None)"

definition match_at :: "bool \<Rightarrow> string \<Rightarrow> (string option \<times> string) option" where
  "match_at prev rest =
     (case match_connector prev rest of
        Some (cap, r) \<Rightarrow> Some (Some cap, r)
      | None \<Rightarrow>
          (case rest of
             [] \<Rightarrow> None
           | c # cs \<Rightarrow>
               if c = CHR ''.'' \<or> c = CHR '';'' then Some (None, dropWhile is_ws cs) else None))"

lemma find_holds: "find P xs = Some x \<Longrightarrow> P x \<and> x \<in> set xs"
  by (induction xs) (auto split: if_splits)

lemma match_connector_shorter:
  assumes "match_connector prev s = Some (cap, r)"
  shows "length r < length s"
proof -
  from assms obtain k where f: "find (\<lambda>k. toLowerCase (take (length k) s) = k \<and>
        word_boundary (is_word_char (last k)) (drop (length k) s)) connectors = Some k"
    and r: "r = drop (length k) s"
    by (auto simp: match_connector_def split: if_splits option.splits)
  from find_holds[OF f] have k: "toLowerCase (take (length k) s) = k" and "k \<in> set connectors"
    by auto
  then have "k \<noteq> []" by (auto simp: connectors_def)
  moreover from k have "length (take (length k) s) = length k"
    by (metis length_map toLowerCase_def)
  ultimately show ?thesis using r by (cases s) auto
qed

lemma match_at_shorter:
  assumes "match_at prev s = Some (cap, r)"
  shows "length r < length s"
proof (cases "match_connector prev s")
  case None
  with assms show ?thesis
    by (auto simp: match_at_def le_imp_less_Suc length_dropWhile_le
        split: list.splits if_splits)
next
  case (Some a)
  with assms show ?thesis
    by (cases a) (auto simp: match_at_def dest: match_connector_shorter)
qed

text \<open>
  \<open>input.split(pattern)\<close>, as the language defines it for a pattern that never
  matches the empty string: scan from the end of the last match; at the first
  position where the pattern matches, emit the piece before it and the capture
  (\<open>undefined\<close>, here \<open>None\<close>, when the group did not take part), and go on after the
  match; at the end emit the last piece.
\<close>

function js_split :: "bool \<Rightarrow> string \<Rightarrow> string \<Rightarrow> string option list" where
  "js_split prev cur [] = [Some cur]"
| "js_split prev cur (c # cs) =
     (case match_at prev (c # cs) of
        Some (cap, r) \<Rightarrow>
          Some cur # cap #
            js_split (is_word_char (last (take (length (c # cs) - length r) (c # cs)))) [] r
      | None \<Rightarrow> js_split (is_word_char c) (cur @ [c]) cs)"
  by pat_completeness auto
termination
  by (relation "measure (\<lambda>(prev, cur, s). length s)") (auto dest: match_at_shorter)

record subtask =
  st_text :: string
  st_connector :: string

definition splitIntoSubtasks :: "string \<Rightarrow> subtask list" where
  "splitIntoSubtasks input =
     (let parts = List.map_filter
                    (\<lambda>p. case p of
                            None \<Rightarrow> None
                          | Some q \<Rightarrow> if q \<noteq> [] \<and> length (trim q) > 2 then Some q else None)
                    (js_split False [] input);
          results = concat (map (\<lambda>i.
                       let part = trim (parts ! i)
                       in if toLowerCase part \<in> set connectors then []
                          else [\<lparr>st_text = part,
                                 st_connector = (if i > 0 then toLowerCase (parts ! (i - 1)) else [])\<rparr>])
                     [0..<length parts])
      in if length results > 0 then results else [\<lparr>st_text = input, st_connector = []\<rparr>])"

definition isSequentialMarker :: "string \<Rightarrow> bool" where
  "isSequentialMarker c = (toLowerCase c \<in> set sequenceMarkers)"

definition calculatePriority :: "string \<Rightarrow> intent \<Rightarrow> nat" where
  "calculatePriority txt it =
     (let p1 = (if i_type it = ''code'' \<or> i_type it = ''devops'' then 2 else 1);
          p2 = (if length (split_ws txt) > 10 then p1 + 1 else p1)
      in min p2 5)"

text \<open>\<open>uuid n\<close> is the value of the \<open>n\<close>-th call of \<open>randomUUID()\<close> in a decomposition;
  a task id is its first eight code units.  \<open>prevId\<close> starts as \<open>null\<close>.\<close>

fun build_tasks :: "(nat \<Rightarrow> string) \<Rightarrow> intent \<Rightarrow> nat \<Rightarrow> string option \<Rightarrow> subtask list \<Rightarrow> task list" where
  "build_tasks uuid it i prevId [] = []"
| "build_tasks uuid it i prevId (st # sts) =
     (let tid = take 8 (uuid i);
          isSequential = isSequentialMarker (st_connector st);
          t = \<lparr>task_id = tid, task_index = i, description = trim (st_text st),
               task_type = i_type it, task_cluster = i_cluster it,
               dependsOn = (if isSequential \<and> truthy prevId then [the prevId] else []),
               task_status = Pending,
               priority = calculatePriority (st_text st) it\<rparr>
      in t # build_tasks uuid it (i + 1) (Some tid) sts)"

definition decompose :: "(nat \<Rightarrow> string) \<Rightarrow> parsed \<Rightarrow> intent \<Rightarrow> decomposition" where
  "decompose uuid p it =
     (let subtasks = splitIntoSubtasks (raw p);
          ts0 = build_tasks uuid it 0 None subtasks;
          ts = (if length ts0 = 0
                then [\<lparr>task_id = take 8 (uuid 0), task_index = 0, description = raw p,
                       task_type = i_type it, task_cluster = i_cluster it, dependsOn = [],
                       task_status = Pending, priority = 1\<rparr>]
                else ts0)
      in \<lparr>tasks = ts, totalTasks = length ts,
          hasParallelizable = (length (filter (\<lambda>t. length (dependsOn t) = 0) ts) > 1)\<rparr>)"

subsection \<open>Stage 4: the complexity scorer (orchestration/complexity-scorer.js)\<close>

definition riskKeywords :: "string list" where
  "riskKeywords = [''deploy'', ''delete'', ''production'', ''database'', ''migration'',
     ''security'', ''authentication'', ''payment'', ''critical'', ''infrastructure'']"

definition calculateRiskFactor :: "task list \<Rightarrow> real" where
  "calculateRiskFactor ts =
     min (fold (\<lambda>t risk.
            fold (\<lambda>keyword r. if str_includes (toLowerCase (description t)) keyword
                                then r + 0.2 else r) riskKeywords risk) ts 1.0) 3.0"

text \<open>
  A level is a number or \<open>-Infinity\<close> (\<open>Math.max()\<close> of no arguments, when no
  dependency of a task is in the task map).  \<open>getLevel\<close> is recursive and memoises in
  \<open>levels\<close>; the first argument bounds the depth of the recursion, and \<open>None\<close> is
  the call stack running out.  A chain of nested calls visits tasks that are not
  yet in \<open>levels\<close>; once it is longer than the number of tasks it repeats an id
  and never ends, so \<open>calculateWaves\<close> gives it one more than the number of tasks.
\<close>

datatype jslevel = MinusInfinity | Level int

fun level_max :: "jslevel \<Rightarrow> jslevel \<Rightarrow> jslevel" where
  "level_max MinusInfinity l = l"
| "level_max l MinusInfinity = l"
| "level_max (Level a) (Level b) = Level (max a b)"

fun level_succ :: "jslevel \<Rightarrow> jslevel" where
  "level_succ MinusInfinity = MinusInfinity"
| "level_succ (Level a) = Level (a + 1)"

fun getLevel ::
  "nat \<Rightarrow> (string \<times> task) list \<Rightarrow> (string \<times> jslevel) list \<Rightarrow> task \<Rightarrow>
   ((string \<times> jslevel) list \<times> jslevel) option" where
  "getLevel 0 taskMap levels t = None"
| "getLevel (Suc n) taskMap levels t =
     (case map_of levels (task_id t) of
        Some l \<Rightarrow> Some (levels, l)
      | None \<Rightarrow>
          if length (dependsOn t) = 0
          then Some (AList.update (task_id t) (Level 0) levels, Level 0)
          else
            (case fold (\<lambda>dep acc.
                          case acc of
                            None \<Rightarrow> None
                          | Some (lv, m) \<Rightarrow>
                              (case getLevel n taskMap lv dep of
                                 None \<Rightarrow> None
                               | Some (lv', l) \<Rightarrow> Some (lv', level_max m l)))
                       (List.map_filter (map_of taskMap) (dependsOn t))
                       (Some (levels, MinusInfinity)) of
               None \<Rightarrow> None
             | Some (lv, maxDepLevel) \<Rightarrow>
                 Some (AList.update (task_id t) (level_succ maxDepLevel) lv,
                       level_succ maxDepLevel)))"

definition calculateWaves :: "task list \<Rightarrow> int option" where
  "calculateWaves ts =
     (let taskMap = fold (\<lambda>t m. AList.update (task_id t) t m) ts [];
          levels = fold (\<lambda>t acc.
                      case acc of
                        None \<Rightarrow> None
                      | Some lv \<Rightarrow> map_option fst (getLevel (length ts + 1) taskMap lv t))
                    ts (Some [])
      in case levels of
           None \<Rightarrow> None
         | Some lv \<Rightarrow>
             Some (fold (\<lambda>(k, l) m. case l of MinusInfinity \<Rightarrow> m | Level a \<Rightarrow> max m a) lv 0 + 1))"

definition js_score :: "decomposition \<Rightarrow> complexity option" where
  "js_score d =
     (let ts = tasks d;
          subtaskCount = length ts;
          totalDeps = fold (\<lambda>t acc. acc + length (dependsOn t)) ts 0;
          dependencyWeight = 1 + real totalDeps / real (max subtaskCount 1);
          riskFactor = calculateRiskFactor ts;
          sc = real_of_int (round (real subtaskCount * dependencyWeight * riskFactor * 10)) / 10;
          (lv, lo, hi) = (if sc \<le> 3 then (''simple'', 1, 2)
                          else if sc \<le> 7 then (''medium'', 3, 5)
                          else (''complex'', 5, 10));
          normalizedScore = min (sc / 10) 1;
          agentCount = round (lo + normalizedScore * (hi - lo))
      in case calculateWaves ts of
           None \<Rightarrow> None
         | Some w \<Rightarrow>
             Some \<lparr>score = sc, level = lv, agentCount = agentCount, waves = w,
                   details = \<lparr>subtaskCount = subtaskCount,
                     dependencyWeight = real_of_int (round (dependencyWeight * 100)) / 100,
                     riskFactor = real_of_int (round (riskFactor * 100)) / 100\<rparr>\<rparr>)"

subsection \<open>Registry lookup and the agent spawner (agents/spawner.js)\<close>

record criteria =
  c_cluster :: "string option"
  c_skills :: "string list option"
  c_complexity :: "string option"

text \<open>A criterion is applied when it is truthy (for \<open>skills\<close>: present and not the
  empty array).\<close>

definition findAgents :: "registry \<Rightarrow> criteria \<Rightarrow> agent list" where
  "findAgents reg cr =
     (let candidates = map snd (agents reg);
          c1 = (if truthy (c_cluster cr)
                then filter (\<lambda>a. Some (agent_cluster a) = c_cluster cr) candidates
                else candidates);
          c2 = (case c_skills cr of
                  None \<Rightarrow> c1
                | Some sk \<Rightarrow>
                    if length sk > 0
                    then filter (\<lambda>a. list_ex (\<lambda>skill. skill \<in> set (skills a)) sk) c1
                    else c1);
          c3 = (if truthy (c_complexity cr)
                then filter (\<lambda>a. list_ex (\<lambda>l. Some l = c_complexity cr) (complexitySupported a)) c2
                else c2)
      in js_sort (\<lambda>a b. js_sub (confidenceScore b) (confidenceScore a)) c3)"

record allocation =
  alloc_agents :: "agent list"
  assignments :: "(string \<times> string list) list"
  strategy :: string

text \<open>The \<open>seen\<close> set of \<open>allocate\<close>: the first agent of every id is kept.\<close>

fun dedupe :: "string list \<Rightarrow> agent list \<Rightarrow> agent list" where
  "dedupe seen [] = []"
| "dedupe seen (a # as) =
     (if agent_id a \<in> set seen then dedupe seen as else a # dedupe (seen @ [agent_id a]) as)"

definition selectAgents :: "agent list \<Rightarrow> complexity \<Rightarrow> task list \<Rightarrow> agent list" where
  "selectAgents pool cx ts =
     (let count = min (agentCount cx) (int (length pool))
      in if level cx = ''simple'' then slice0 (max 1 count) pool
         else if level cx = ''medium'' then slice0 count pool
         else slice0 (min (int (length pool)) 10) pool)"

definition assignToTask :: "task \<Rightarrow> agent list \<Rightarrow> complexity \<Rightarrow> agent list" where
  "assignToTask t selectedAgents cx =
     (let matching = filter (\<lambda>a. agent_cluster a = task_cluster t) selectedAgents
      in if length matching > 0 then matching else slice0 1 selectedAgents)"

definition getStrategy :: "string \<Rightarrow> string" where
  "getStrategy lv =
     (if lv = ''simple'' then ''direct_execution''
      else if lv = ''medium'' then ''parallel_pool''
      else if lv = ''complex'' then ''dag_staged_waves''
      else ''direct_execution'')"

text \<open>The secondary candidates, as \<open>allocate\<close> collects them: one registry lookup per
  secondary intent, with the intent's \<open>type\<close> passed as the cluster criterion.\<close>

definition secondaryAgents :: "registry \<Rightarrow> complexity \<Rightarrow> intent \<Rightarrow> agent list" where
  "secondaryAgents reg cx it =
     concat (map (\<lambda>sec. findAgents reg
                    \<lparr>c_cluster = Some (s_type sec), c_skills = None,
                     c_complexity = Some (level cx)\<rparr>) (secondary it))"

definition allocate :: "registry \<Rightarrow> decomposition \<Rightarrow> complexity \<Rightarrow> intent \<Rightarrow> allocation" where
  "allocate reg d cx it =
     (let primaryAgents = findAgents reg
            \<lparr>c_cluster = Some (i_cluster it), c_skills = None, c_complexity = Some (level cx)\<rparr>;
          pool = primaryAgents @ secondaryAgents reg cx it;
          uniquePool = dedupe [] pool;
          selected = selectAgents uniquePool cx (tasks d);
          asg = fold (\<lambda>t m. AList.update (task_id t)
                          (map agent_id (assignToTask t selected cx)) m) (tasks d) []
      in \<lparr>alloc_agents = selected, assignments = asg, strategy = getStrategy (level cx)\<rparr>)"

text \<open>For comparison, the secondary pool in the spec's words: one lookup per secondary
  intent with the cluster of that intent, which is the cluster its pattern names.\<close>

definition secondary_pool_spec :: "registry \<Rightarrow> complexity \<Rightarrow> intent \<Rightarrow> agent list" where
  "secondary_pool_spec reg cx it =
     concat (map (\<lambda>sec. findAgents reg
                    \<lparr>c_cluster = map_option pat_cluster (map_of patterns (s_type sec)),
                     c_skills = None, c_complexity = Some (level cx)\<rparr>) (secondary it))"

subsection \<open>DAG builder and wave scheduler (execution/dag-scheduler.js)\<close>

text \<open>A \<open>Set\<close> of strings: \<open>add\<close> appends an element that is not yet there.\<close>

definition set_add :: "string \<Rightarrow> string list \<Rightarrow> string list" where
  "set_add x xs = (if x \<in> set xs then xs else xs @ [x])"

definition new_set :: "string list \<Rightarrow> string list" where
  "new_set xs = fold set_add xs []"

text \<open>What \<open>pool.execute(job)\<close> settles to for a task and its agent ids: the promise
  resolves with a result whose \<open>output\<close> is given, after the given number of
  milliseconds between the two clock reads, or it is rejected with an error whose
  \<open>message\<close> is given.  A run dispatches a task at most once, so a function of the
  job stands for the pool in any one run.\<close>

datatype pool_outcome = Resolved string nat | Rejected string

type_synonym worker_pool = "task \<Rightarrow> string list \<Rightarrow> pool_outcome"

datatype node_result = WorkerResult string | ErrorResult string

record node =
  n_task :: task
  n_dependsOn :: "string list"
  dependents :: "string list"
  n_status :: status
  n_result :: "node_result option"

text \<open>The node objects live in the \<open>nodes\<close> map; a wave holds references to them,
  here their keys.\<close>

record dag =
  dag_nodes :: "(string \<times> node) list"
  dag_waves :: "string list list"

definition ready :: "string list \<Rightarrow> string \<times> node \<Rightarrow> bool" where
  "ready completed e =
     (fst e \<notin> set completed \<and> n_status (snd e) = Pending \<and>
      list_all (\<lambda>depId. depId \<in> set completed) (n_dependsOn (snd e)))"

lemma pending_count_decreases:
  assumes "filter (ready completed) ns \<noteq> []"
  shows "length (filter (\<lambda>e. n_status (snd e) = Pending)
           (map (\<lambda>e. if ready completed e then (fst e, (snd e)\<lparr>n_status := Scheduled\<rparr>) else e) ns))
         < length (filter (\<lambda>e. n_status (snd e) = Pending) ns)"
  using assms
proof (induction ns)
  case Nil
  then show ?case by simp
next
  case (Cons e ns)
  have le: "length (filter (\<lambda>e. n_status (snd e) = Pending)
           (map (\<lambda>e. if ready completed e then (fst e, (snd e)\<lparr>n_status := Scheduled\<rparr>) else e) ns))
         \<le> length (filter (\<lambda>e. n_status (snd e) = Pending) ns)" for ns
    by (induction ns) auto
  show ?case
  proof (cases "ready completed e")
    case True
    then have "n_status (snd e) = Pending" by (simp add: ready_def)
    with True le[of ns] show ?thesis by (simp add: le_imp_less_Suc)
  next
    case False
    with Cons show ?thesis by auto
  qed
qed

text \<open>The \<open>while\<close> loop of \<open>computeWaves\<close>; the result is the list of waves and the
  map with the statuses the loop has written.\<close>

function computeWaves_loop ::
  "(string \<times> node) list \<Rightarrow> string list list \<Rightarrow> string list \<Rightarrow> string list list \<times> (string \<times> node) list" where
  "computeWaves_loop ns ws completed =
     (if length completed < length ns
      then (let wave = filter (ready completed) ns
            in if length wave = 0 then (ws, ns)
               else computeWaves_loop
                      (map (\<lambda>e. if ready completed e
                                 then (fst e, (snd e)\<lparr>n_status := Scheduled\<rparr>) else e) ns)
                      (ws @ [map fst wave])
                      (fold (\<lambda>e. set_add (task_id (n_task (snd e)))) wave completed))
      else (ws, ns))"
  by pat_completeness auto
termination
  by (relation "measure (\<lambda>(ns, ws, completed). length (filter (\<lambda>e. n_status (snd e) = Pending) ns))")
     (use pending_count_decreases in \<open>auto simp: filter_map\<close>)

declare computeWaves_loop.simps [simp del]

definition computeWaves :: "(string \<times> node) list \<Rightarrow> string list list \<times> (string \<times> node) list" where
  "computeWaves ns = computeWaves_loop ns [] []"

definition buildDAG :: "decomposition \<Rightarrow> dag" where
  "buildDAG d =
     (let ts = tasks d;
          nodes0 = fold (\<lambda>t ns. AList.update (task_id t)
                      \<lparr>n_task = t, n_dependsOn = new_set (dependsOn t), dependents = [],
                       n_status = Pending, n_result = None\<rparr> ns) ts [];
          nodes1 = fold (\<lambda>t ns.
                      fold (\<lambda>depId ns'.
                              case map_of ns' depId of
                                None \<Rightarrow> ns'
                              | Some depNode \<Rightarrow>
                                  AList.update depId
                                    (depNode\<lparr>dependents := set_add (task_id t) (dependents depNode)\<rparr>) ns')
                           (dependsOn t) ns) ts nodes0;
          (ws, nodes2) = computeWaves nodes1
      in \<lparr>dag_nodes = nodes2, dag_waves = ws\<rparr>)"

record task_result =
  r_taskId :: string
  r_description :: string
  r_status :: status
  r_output :: "string option"
  r_error :: "string option"
  r_duration :: nat
  r_agentId :: "string option"
  r_wave :: nat

record execution_result =
  e_results :: "task_result list"
  e_waves :: nat
  e_totalTasks :: nat

definition skipDependents :: "(string \<times> node) list \<Rightarrow> string list \<Rightarrow> (string \<times> node) list" where
  "skipDependents ns failedIds =
     fold (\<lambda>failedId ns1.
             case map_of ns1 failedId of
               None \<Rightarrow> ns1
             | Some failedNode \<Rightarrow>
                 fold (\<lambda>depId ns2.
                         case map_of ns2 depId of
                           None \<Rightarrow> ns2
                         | Some depNode \<Rightarrow>
                             if n_status depNode = Pending
                             then AList.update depId (depNode\<lparr>n_status := Skipped\<rparr>) ns2
                             else ns2)
                      (dependents failedNode) ns1)
          failedIds ns"

text \<open>One node of a wave: the callback of \<open>wave.map\<close>, from the dispatch to the
  task result it returns.  The callback reads and writes its own node only, so the
  nodes of a wave are taken in the wave's order, which is also the order of the
  results of \<open>Promise.allSettled\<close>.\<close>

definition run_node ::
  "worker_pool \<Rightarrow> allocation \<Rightarrow> nat \<Rightarrow> string \<Rightarrow>
   (string \<times> node) list \<times> task_result list \<Rightarrow> (string \<times> node) list \<times> task_result list" where
  "run_node pool alloc i k st =
     (case map_of (fst st) k of
        None \<Rightarrow> st
      | Some nd \<Rightarrow>
          (let t = n_task nd;
               assignedAgentIds = (case map_of (assignments alloc) (task_id t) of
                                     None \<Rightarrow> [] | Some ids \<Rightarrow> ids);
               agent0 = (case assignedAgentIds of [] \<Rightarrow> None | a # _ \<Rightarrow> Some a)
           in case pool t assignedAgentIds of
                Resolved out elapsed \<Rightarrow>
                  (AList.update k (nd\<lparr>n_status := Completed, n_result := Some (WorkerResult out)\<rparr>) (fst st),
                   snd st @ [\<lparr>r_taskId = task_id t, r_description = description t,
                              r_status = Completed,
                              r_output = Some (if out = [] then ''Task completed'' else out),
                              r_error = None, r_duration = elapsed, r_agentId = agent0,
                              r_wave = i\<rparr>])
              | Rejected msg \<Rightarrow>
                  (AList.update k (nd\<lparr>n_status := Failed, n_result := Some (ErrorResult msg)\<rparr>) (fst st),
                   snd st @ [\<lparr>r_taskId = task_id t, r_description = description t,
                              r_status = Failed, r_output = None, r_error = Some msg,
                              r_duration = 0, r_agentId = agent0, r_wave = i\<rparr>])))"

fun run_waves ::
  "worker_pool \<Rightarrow> allocation \<Rightarrow> nat \<Rightarrow> nat \<Rightarrow> string list list \<Rightarrow>
   (string \<times> node) list \<times> task_result list \<Rightarrow> (string \<times> node) list \<times> task_result list" where
  "run_waves pool alloc n i [] st = st"
| "run_waves pool alloc n i (wave # rest) st =
     (let (ns1, waveResults) = fold (run_node pool alloc i) wave (fst st, []);
          failures = filter (\<lambda>r. r_status r = Failed) waveResults;
          ns2 = (if length failures > 0 \<and> i < n - 1
                 then skipDependents ns1 (map r_taskId failures) else ns1)
      in run_waves pool alloc n (i + 1) rest (ns2, snd st @ waveResults))"

text \<open>\<open>execute\<close> of the scheduler (without a renderer); it returns the execution
  result and leaves the node map as given here.\<close>

definition dag_execute :: "dag \<Rightarrow> allocation \<Rightarrow> worker_pool \<Rightarrow> execution_result \<times> (string \<times> node) list" where
  "dag_execute g alloc pool =
     (let (ns, allResults) =
            run_waves pool alloc (length (dag_waves g)) 0 (dag_waves g) (dag_nodes g, [])
      in (\<lparr>e_results = allResults, e_waves = length (dag_waves g),
           e_totalTasks = length allResults\<rparr>, ns))"

subsection \<open>The orchestrator (orchestration/orchestrator.js)\<close>

text \<open>
  \<open>execute\<close> of the orchestrator, stages 1 to 6, for a context without a renderer.
  The stages are method calls inside one \<open>try\<close>; an exception in a stage gives the
  error form with the pipeline fields written so far.  For a string input the
  stages modelled here raise nothing but the stack overflow of \<open>getLevel\<close>.  Stages 7
  to 9 (evaluation, aggregation, learning) read the results and add the summary and
  the metrics of the output form; they are not modelled.
\<close>

record pipeline =
  p_intent :: "intent option"
  p_decomposition :: "decomposition option"
  p_complexity :: "complexity option"
  p_agents :: "allocation option"
  p_execution :: "execution_result option"

datatype outcome = OutputForm pipeline | ErrorForm string pipeline

definition orchestrator_execute ::
  "(nat \<Rightarrow> string) \<Rightarrow> worker_pool \<Rightarrow> registry \<Rightarrow> string \<Rightarrow> outcome" where
  "orchestrator_execute uuid pool reg input =
     (let p = parseInput input;
          it = classify p;
          d = decompose uuid p it
      in case js_score d of
           None \<Rightarrow>
             ErrorForm ''Maximum call stack size exceeded''
               \<lparr>p_intent = Some it, p_decomposition = Some d, p_complexity = None,
                p_agents = None, p_execution = None\<rparr>
         | Some cx \<Rightarrow>
             (let alloc = allocate reg d cx it;
                  g = buildDAG d;
                  executionResult = fst (dag_execute g alloc pool)
              in OutputForm
                   \<lparr>p_intent = Some it, p_decomposition = Some d, p_complexity = Some cx,
                    p_agents = Some alloc, p_execution = Some executionResult\<rparr>))"

text \<open>Which form an outcome has, and its pipeline record.\<close>

definition is_error :: "outcome \<Rightarrow> bool" where
  "is_error out = (case out of OutputForm pl \<Rightarrow> False | ErrorForm msg pl \<Rightarrow> True)"

definition outcome_pipeline :: "outcome \<Rightarrow> pipeline" where
  "outcome_pipeline out = (case out of OutputForm pl \<Rightarrow> pl | ErrorForm msg pl \<Rightarrow> pl)"

subsection \<open>Histories of calls\<close>

text \<open>A history of calls on the registry and the learning system that shares it:
  \<open>updateAgentMetrics\<close>, a push of any updates onto the queue (as \<open>update\<close> does
  with the ones it generates), and \<open>applyUpdates\<close>.\<close>

datatype registry_op =
    UpdateMetrics string metrics
  | Enqueue "confidence_update list"
  | ApplyUpdates

fun registry_step :: "registry_op \<Rightarrow> learning \<times> registry \<Rightarrow> learning \<times> registry" where
  "registry_step (UpdateMetrics k m) (ls, reg) = (ls, updateAgentMetrics k m reg)"
| "registry_step (Enqueue us) (ls, reg) = (ls\<lparr>updateQueue := updateQueue ls @ us\<rparr>, reg)"
| "registry_step ApplyUpdates (ls, reg) = snd (applyUpdates ls reg)"

definition run_registry :: "nat \<Rightarrow> registry_op list \<Rightarrow> learning \<times> registry" where
  "run_registry now ops = fold registry_step ops (new_learning, new_registry now)"

text \<open>The deltas that a history pushes onto the update queue.\<close>

fun queued_deltas :: "registry_op list \<Rightarrow> number list" where
  "queued_deltas [] = []"
| "queued_deltas (Enqueue us # ops) = map u_delta us @ queued_deltas ops"
| "queued_deltas (op # ops) = queued_deltas ops"


definition run_memory :: "(nat \<times> perf_entry) list \<Rightarrow> memory \<Rightarrow> memory" where
  "run_memory calls mem = fold (\<lambda>(now, e). recordPerformance now e) calls mem"

subsection \<open>Well-formed decompositions\<close>

text \<open>The decompositions of the data model: task ids are unique, and every id in a
  task's \<open>dependsOn\<close> is the id of an earlier task of the list.\<close>

fun deps_earlier :: "string list \<Rightarrow> task list \<Rightarrow> bool" where
  "deps_earlier seen [] = True"
| "deps_earlier seen (t # ts) =
     (list_all (\<lambda>depId. depId \<in> set seen) (dependsOn t) \<and> deps_earlier (seen @ [task_id t]) ts)"

definition well_formed :: "decomposition \<Rightarrow> bool" where
  "well_formed d = (distinct (map task_id (tasks d)) \<and> deps_earlier [] (tasks d))"

subsection \<open>Notions used in the proofs\<close>

text \<open>\<open>mark\<close> is the status update of one round of \<open>computeWaves\<close>; \<open>wave_deps\<close> says
  that the dependencies of a node of wave \<open>i\<close> lie in earlier waves; \<open>wave_inv\<close> is the
  loop invariant; \<open>core\<close> is what the loop leaves unchanged; \<open>skel\<close> is what the second pass of
  \<open>buildDAG\<close> leaves unchanged;
  \<open>initial_nodes\<close> is the node map after the first pass when the ids are unique.
  For the worker pool, \<open>reserved\<close> says that the slots in use and the slots promised
  to woken calls are together within the bound.\<close>

definition mark :: "string list \<Rightarrow> (string \<times> node) list \<Rightarrow> (string \<times> node) list" where
  "mark completed ns =
     map (\<lambda>e. if ready completed e then (fst e, (snd e)\<lparr>n_status := Scheduled\<rparr>) else e) ns"

definition wave_deps :: "(string \<times> node) list \<Rightarrow> string list list \<Rightarrow> bool" where
  "wave_deps ns ws = (\<forall>i<length ws. \<forall>e\<in>set ns. fst e \<in> set (ws ! i) \<longrightarrow>
       (\<forall>d\<in>set (n_dependsOn (snd e)). \<exists>j<i. d \<in> set (ws ! j)))"

definition wave_inv :: "(string \<times> node) list \<Rightarrow> string list list \<Rightarrow> string list \<Rightarrow> bool" where
  "wave_inv ns ws completed =
     (distinct (map fst ns) \<and>
      (\<forall>e\<in>set ns. task_id (n_task (snd e)) = fst e) \<and>
      completed = concat ws \<and> distinct completed \<and> set completed \<subseteq> fst ` set ns \<and>
      (\<forall>e\<in>set ns. (n_status (snd e) = Pending) = (fst e \<notin> set completed)) \<and>
      (\<forall>i<length ns. \<forall>d\<in>set (n_dependsOn (snd (ns ! i))). \<exists>j<i. fst (ns ! j) = d) \<and>
      wave_deps ns ws)"

definition core :: "string \<times> node \<Rightarrow> string \<times> task \<times> string list" where
  "core e = (fst e, n_task (snd e), n_dependsOn (snd e))"

definition reserved :: "pool_state \<Rightarrow> bool" where
  "reserved p = (activeWorkers p + int (length (woken p)) \<le> maxWorkers p)"


definition skel :: "string \<times> node \<Rightarrow> string \<times> task \<times> string list \<times> status" where
  "skel e = (fst e, n_task (snd e), n_dependsOn (snd e), n_status (snd e))"

definition initial_nodes :: "task list \<Rightarrow> (string \<times> node) list" where
  "initial_nodes ts = map (\<lambda>t. (task_id t,
       \<lparr>n_task = t, n_dependsOn = new_set (dependsOn t), dependents = [],
        n_status = Pending, n_result = None\<rparr>)) ts"

subsection \<open>Sample inputs\<close>

text \<open>The example of the scheduler's header comment (A before B and C, both before
  D); a chain of three tasks with an allocation and a pool that rejects the first
  task; three UUIDs.\<close>

definition mk_task :: "string \<Rightarrow> nat \<Rightarrow> string \<Rightarrow> string list \<Rightarrow> task" where
  "mk_task i n descr deps =
     \<lparr>task_id = i, task_index = n, description = descr, task_type = ''code'',
      task_cluster = ''coding'', dependsOn = deps, task_status = Pending, priority = 2\<rparr>"

definition diamond :: decomposition where
  "diamond =
     \<lparr>tasks = [mk_task ''A'' 0 ''Task A'' [], mk_task ''B'' 1 ''Task B'' [''A''],
               mk_task ''C'' 2 ''Task C'' [''A''], mk_task ''D'' 3 ''Task D'' [''B'', ''C'']],
      totalTasks = 4, hasParallelizable = False\<rparr>"


definition chain :: decomposition where
  "chain =
     \<lparr>tasks = [mk_task ''A'' 0 ''build API'' [], mk_task ''B'' 1 ''write tests'' [''A''],
               mk_task ''C'' 2 ''deploy'' [''B'']],
      totalTasks = 3, hasParallelizable = False\<rparr>"

definition chain_allocation :: allocation where
  "chain_allocation =
     \<lparr>alloc_agents = [],
      assignments = [(''A'', [''code_agent_v2'']), (''B'', [''code_agent_v2'']),
                     (''C'', [''code_agent_v2''])],
      strategy = ''parallel_pool''\<rparr>"

definition failing_pool :: worker_pool where
  "failing_pool t ids = (if task_id t = ''A'' then Rejected ''boom'' else Resolved ''done'' 120)"

definition sample_uuid :: "nat \<Rightarrow> string" where
  "sample_uuid n = (if n = 0 then ''1a2b3c4d-0000-4000-8000-000000000000''
                    else if n = 1 then ''5e6f7a8b-0000-4000-8000-000000000001''
                    else ''9c0d1e2f-0000-4000-8000-000000000002'')"

definition sample_ops :: "registry_op list" where
  "sample_ops =
     [UpdateMetrics ''code_agent_v2'' \<lparr>m_duration = lit 1, m_failed = False\<rparr>,
      Enqueue [\<lparr>u_agentId = ''code_agent_v2'', u_delta = lit 5, u_reason = ''boost''\<rparr>],
      ApplyUpdates]"

text \<open>A history that queues a delta which is not a number; a duration one unit in the
  last place below 2; a history of the pool in which a job is submitted between
  the call of a resolver and the resumption of its waiter.\<close>

definition nan_ops :: "registry_op list" where
  "nan_ops =
     [Enqueue [\<lparr>u_agentId = ''code_agent_v2'', u_delta = NaN, u_reason = ''no number''\<rparr>],
      ApplyUpdates]"

definition just_below_two :: metrics where
  "just_below_two = \<lparr>m_duration = Finite (2 - 1 / 2 ^ 52), m_failed = False\<rparr>"

definition overtaking :: "pool_event list" where
  "overtaking = [Submit ''a'', Submit ''b'', Settle ''a'' True, Submit ''c'', Resume]"


definition sample_entry :: perf_entry where
  "sample_entry =
     \<lparr>p_agentId = Some ''code_agent_v2'', p_taskId = Some ''1a2b3c4d'', p_duration = 120,
      p_success = True, p_complexity = ''simple'', p_cluster = Some ''coding''\<rparr>"

text \<open>The records that the requests of the theorems below produce.\<close>

definition general_intent :: intent where
  "general_intent = \<lparr>i_type = ''general'', i_cluster = ''research'', i_priority = None,
      i_confidence = 0.3, i_matched = [], secondary = []\<rparr>"

definition blank_task :: "string \<Rightarrow> task" where
  "blank_task i = \<lparr>task_id = i, task_index = 0, description = [],
                 task_type = ''general'', task_cluster = ''research'', dependsOn = [],
                 task_status = Pending, priority = 1\<rparr>"

definition simple_complexity :: complexity where
  "simple_complexity = \<lparr>score = 1, level = ''simple'', agentCount = 1, waves = 1,
      details = \<lparr>subtaskCount = 1, dependencyWeight = 1, riskFactor = 1\<rparr>\<rparr>"

definition deploy_intent :: intent where
  "deploy_intent = \<lparr>i_type = ''devops'', i_cluster = ''devops'', i_priority = Some ''high'',
      i_confidence = 1 / 3, i_matched = [''deploy''], secondary = []\<rparr>"

definition deploy_tasks :: decomposition where
  "deploy_tasks = \<lparr>tasks = [\<lparr>task_id = ''1a2b3c4d'', task_index = 0, description = ''deploy'',
       task_type = ''devops'', task_cluster = ''devops'', dependsOn = [],
       task_status = Pending, priority = 2\<rparr>], totalTasks = 1, hasParallelizable = False\<rparr>"

definition deploy_complexity :: complexity where
  "deploy_complexity = \<lparr>score = 6 / 5, level = ''simple'', agentCount = 1, waves = 1,
      details = \<lparr>subtaskCount = 1, dependencyWeight = 1, riskFactor = 6 / 5\<rparr>\<rparr>"

definition devops_build_intent :: intent where
  "devops_build_intent = \<lparr>i_type = ''devops'', i_cluster = ''devops'', i_priority = Some ''high'',
      i_confidence = 2 / 3, i_matched = [''deploy'', ''docker''],
      secondary = [\<lparr>s_type = ''code'', s_confidence = 1 / 3\<rparr>,
                   \<lparr>s_type = ''design'', s_confidence = 1 / 3\<rparr>]\<rparr>"

definition medium_complexity :: complexity where
  "medium_complexity = \<lparr>score = 7, level = ''medium'', agentCount = 4, waves = 3,
           details = \<lparr>subtaskCount = 3, dependencyWeight = 167 / 100, riskFactor = 7 / 5\<rparr>\<rparr>"

definition oauth_input :: string where
  "oauth_input = ''research OAuth then build API then deploy to production''"

definition oauth_intent :: intent where
  "oauth_intent = \<lparr>i_type = ''code'', i_cluster = ''coding'', i_priority = Some ''high'',
    i_confidence = 2 / 3, i_matched = [''build'', ''api''],
    secondary = [\<lparr>s_type = ''research'', s_confidence = 2 / 3\<rparr>,
                 \<lparr>s_type = ''devops'', s_confidence = 1 / 3\<rparr>,
                 \<lparr>s_type = ''design'', s_confidence = 1 / 3\<rparr>]\<rparr>"

definition oauth_tasks :: "string \<Rightarrow> string \<Rightarrow> string \<Rightarrow> task list" where
  "oauth_tasks i0 i1 i2 =
     [\<lparr>task_id = i0, task_index = 0, description = ''research OAuth'', task_type = ''code'',
        task_cluster = ''coding'', dependsOn = [], task_status = Pending, priority = 2\<rparr>,
      \<lparr>task_id = i1, task_index = 1, description = ''build API'', task_type = ''code'',
        task_cluster = ''coding'', dependsOn = [i0], task_status = Pending, priority = 2\<rparr>,
      \<lparr>task_id = i2, task_index = 2, description = ''deploy to production'', task_type = ''code'',
        task_cluster = ''coding'', dependsOn = [i1], task_status = Pending, priority = 2\<rparr>]"



section \<open>Verification\<close>

subsection \<open>Rounding\<close>

text \<open>Evaluation of the rounding on numerals; the exponent brackets its argument;
  rounding is monotone, so a result between two doubles is a double between them.\<close>

lemmas eval_number = to_number_def rn_def ulp_def pow2_def expo_def round_even_def Let_def
  compute_floorlog

lemma pow2_powi: "pow2 e = 2 powi e"
  by (simp add: pow2_def power_int_def inverse_eq_divide power_one_over)

lemma pow2_pos: "0 < pow2 e"
  by (simp add: pow2_powi)

lemma pow2_add: "pow2 (a + b) = pow2 a * pow2 b"
  by (simp add: pow2_powi power_int_add)

lemma pow2_mono: "a \<le> b \<Longrightarrow> pow2 a \<le> pow2 b"
  by (simp add: pow2_powi power_int_increasing)

lemma pow2_less_cancel: "pow2 a < pow2 b \<Longrightarrow> a < b"
  using pow2_mono[of b a] by (cases "a < b") auto

lemma expo_bounds:
  assumes "x \<noteq> 0"
  shows "pow2 (expo x) \<le> \<bar>x\<bar>" and "\<bar>x\<bar> < pow2 (expo x + 1)"
proof -
  have "pow2 (expo x) \<le> \<bar>x\<bar> \<and> \<bar>x\<bar> < pow2 (expo x + 1)"
  proof (cases "1 \<le> \<bar>x\<bar>")
    case True
    define n where "n = nat \<lfloor>\<bar>x\<bar>\<rfloor>"
    define k where "k = floorlog 2 n"
    from True have n: "0 < n" by (simp add: n_def)
    from floorlog_bounds[OF n, of 2] have b: "2 ^ (k - 1) \<le> n" "n < 2 ^ k"
      by (simp_all add: k_def)
    from n have k: "1 \<le> k" by (simp add: k_def floorlog_def)
    have e: "expo x = int k - 1" using True by (simp add: expo_def n_def k_def)
    have nx: "real n \<le> \<bar>x\<bar>" "\<bar>x\<bar> < real n + 1"
      using True by (simp_all add: n_def)
    have "pow2 (expo x) = 2 ^ (k - 1)"
      using k by (simp add: e pow2_def nat_diff_distrib)
    also have "\<dots> \<le> real n" using b(1) by (metis of_nat_le_iff of_nat_numeral of_nat_power)
    finally have 1: "pow2 (expo x) \<le> \<bar>x\<bar>" using nx by simp
    have "real n + 1 \<le> 2 ^ k"
      using b(2) by (metis Suc_leI of_nat_Suc of_nat_le_iff of_nat_numeral of_nat_power add.commute)
    moreover have "pow2 (expo x + 1) = 2 ^ k" by (simp add: e pow2_def)
    ultimately have 2: "\<bar>x\<bar> < pow2 (expo x + 1)" using nx by simp
    from 1 2 show ?thesis by simp
  next
    case False
    define r where "r = 1 / \<bar>x\<bar>"
    define m where "m = nat (\<lceil>r\<rceil> - 1)"
    define k where "k = floorlog 2 m"
    from False assms have x: "0 < \<bar>x\<bar>" "\<bar>x\<bar> < 1" by simp_all
    then have r: "1 < r" by (simp add: r_def)
    then have "2 \<le> \<lceil>r\<rceil>" by linarith
    then have m: "0 < m" and mr: "int m = \<lceil>r\<rceil> - 1" by (simp_all add: m_def)
    from floorlog_bounds[OF m, of 2] have b: "2 ^ (k - 1) \<le> m" "m < 2 ^ k"
      by (simp_all add: k_def)
    from m have k: "1 \<le> k" by (simp add: k_def floorlog_def)
    have e: "expo x = - int k" using False by (simp add: expo_def m_def k_def r_def)
    have "real m < r" using mr by (metis of_int_of_nat_eq  ceiling_correct add_diff_cancel_right' of_int_1 of_int_diff diff_add_cancel)
    moreover have "r \<le> real m + 1" using mr
      by (metis of_int_of_nat_eq le_of_int_ceiling of_int_1 of_int_diff diff_add_cancel)
    ultimately have mr2: "real m < r" "r \<le> real m + 1" .
    have "real m + 1 \<le> 2 ^ k"
      using b(2) by (metis Suc_leI of_nat_Suc of_nat_le_iff of_nat_numeral of_nat_power add.commute)
    with mr2 have "r \<le> 2 ^ k" by linarith
    then have "1 / 2 ^ k \<le> \<bar>x\<bar>" using x by (simp add: r_def field_simps)
    moreover have "pow2 (expo x) = 1 / 2 ^ k" using k by (simp add: e pow2_def)
    ultimately have 1: "pow2 (expo x) \<le> \<bar>x\<bar>" by simp
    have "(2::real) ^ (k - 1) \<le> real m" using b(1) by (metis of_nat_le_iff of_nat_numeral of_nat_power)
    with mr2 have "2 ^ (k - 1) < r" by linarith
    then have "\<bar>x\<bar> < 1 / 2 ^ (k - 1)" using x by (simp add: r_def field_simps)
    moreover have "pow2 (expo x + 1) = 1 / 2 ^ (k - 1)"
    proof (cases "k = 1")
      case True then show ?thesis by (simp add: e pow2_def)
    next
      case False
      with k have "1 < k" by simp
      then have "nat (int k - 1) = k - 1" by simp
      then show ?thesis using \<open>1 < k\<close> by (simp add: e pow2_def)
    qed
    ultimately have 2: "\<bar>x\<bar> < pow2 (expo x + 1)" by simp
    from 1 2 show ?thesis by simp
  qed
  then show "pow2 (expo x) \<le> \<bar>x\<bar>" and "\<bar>x\<bar> < pow2 (expo x + 1)" by simp_all
qed


lemma round_even_of_int: "round_even (of_int k) = k"
  by (simp add: round_even_def)

lemma round_even_mono:
  assumes "x \<le> y"
  shows "round_even x \<le> round_even y"
proof (cases "\<lfloor>x\<rfloor> = \<lfloor>y\<rfloor>")
  case True
  with assms show ?thesis by (auto simp: round_even_def Let_def)
next
  case False
  with assms have "\<lfloor>x\<rfloor> + 1 \<le> \<lfloor>y\<rfloor>" using floor_mono[OF assms] by linarith
  moreover have "round_even x \<le> \<lfloor>x\<rfloor> + 1" by (auto simp: round_even_def Let_def)
  moreover have "\<lfloor>y\<rfloor> \<le> round_even y" by (auto simp: round_even_def Let_def)
  ultimately show ?thesis by linarith
qed

lemma round_even_minus: "round_even (- x) = - round_even x"
proof (cases "x = of_int \<lfloor>x\<rfloor>")
  case True
  then obtain k where "x = of_int k" ..
  then have "round_even x = k" "round_even (- x) = - k"
    using round_even_of_int[of k] round_even_of_int[of "- k"] by simp_all
  then show ?thesis by simp
next
  case False
  then have f: "\<lfloor>- x\<rfloor> = - \<lfloor>x\<rfloor> - 1"
    by (metis ceiling_def ceiling_altdef diff_minus_eq_add minus_diff_eq add_diff_cancel_right' uminus_add_conv_diff)
  have r: "0 < x - of_int \<lfloor>x\<rfloor>" using False by linarith
  show ?thesis
    unfolding round_even_def Let_def f
    using r by (auto simp: algebra_simps)
qed


lemma expo_minus: "expo (- x) = expo x"
  by (simp add: expo_def)

lemma ulp_minus: "ulp (- x) = ulp x"
  by (simp add: ulp_def expo_minus)

lemma ulp_pos: "0 < ulp x"
  by (simp add: ulp_def pow2_pos)

lemma rn_minus: "rn (- x) = - rn x"
  by (simp add: rn_def ulp_minus round_even_minus)

lemma rn_zero: "rn 0 = 0"
  using round_even_of_int[of 0] by (simp add: rn_def)

lemma rn_nonneg: "0 \<le> x \<Longrightarrow> 0 \<le> rn x"
proof -
  assume "0 \<le> x"
  then have "0 \<le> x / ulp x" using ulp_pos[of x] by simp
  from round_even_mono[OF this] have "0 \<le> round_even (x / ulp x)"
    using round_even_of_int[of 0] by simp
  then show ?thesis using ulp_pos[of x] by (simp add: rn_def)
qed

lemma expo_mono:
  assumes "0 < x" and "x \<le> y"
  shows "expo x \<le> expo y"
proof -
  from assms have "pow2 (expo x) \<le> x" "y < pow2 (expo y + 1)"
    using expo_bounds[of x] expo_bounds[of y] by simp_all
  with assms have "pow2 (expo x) < pow2 (expo y + 1)" by linarith
  from pow2_less_cancel[OF this] show ?thesis by simp
qed

lemma pow2_53: "pow2 53 = 2 ^ 53" "pow2 52 = 2 ^ 52"
  by (simp_all add: pow2_def)

lemma rn_upper:
  assumes "0 < x"
  shows "rn x \<le> pow2 (max (expo x) (- 1022) + 1)"
proof -
  define E where "E = max (expo x) (- 1022)"
  define u where "u = pow2 (E - 52)"
  have u: "0 < u" by (simp add: u_def pow2_pos)
  have top: "pow2 (E + 1) = 2 ^ 53 * u"
    using pow2_add[of "E - 52" 53] by (simp add: u_def pow2_53 add.commute)
  have "x < pow2 (expo x + 1)" using expo_bounds(2)[of x] assms by simp
  also have "\<dots> \<le> pow2 (E + 1)" by (rule pow2_mono) (simp add: E_def)
  finally have "x / u \<le> of_int (2 ^ 53)" using u top by (simp add: field_simps)
  from round_even_mono[OF this] have "round_even (x / u) \<le> 2 ^ 53"
    by (simp only: round_even_of_int)
  then have "real_of_int (round_even (x / u)) \<le> real_of_int (2 ^ 53)" by (simp only: of_int_le_iff)
  then have "real_of_int (round_even (x / u)) \<le> 2 ^ 53" by simp
  then have "real_of_int (round_even (x / u)) * u \<le> 2 ^ 53 * u"
    using u by (simp only: mult_le_cancel_right_pos)
  then show ?thesis by (simp add: rn_def ulp_def E_def[symmetric] u_def[symmetric] top)
qed

lemma rn_lower:
  assumes "0 < x" and "- 1022 \<le> expo x"
  shows "pow2 (expo x) \<le> rn x"
proof -
  define u where "u = pow2 (expo x - 52)"
  have u: "0 < u" by (simp add: u_def pow2_pos)
  have ux: "ulp x = u" using assms(2) by (simp add: ulp_def u_def max_def)
  have bot: "pow2 (expo x) = 2 ^ 52 * u"
    using pow2_add[of "expo x - 52" 52] by (simp add: u_def pow2_53)
  have "pow2 (expo x) \<le> x" using expo_bounds(1)[of x] assms by simp
  then have "of_int (2 ^ 52) \<le> x / u" using u bot by (simp add: field_simps)
  from round_even_mono[OF this] have "2 ^ 52 \<le> round_even (x / u)"
    by (simp only: round_even_of_int)
  then have "real_of_int (2 ^ 52) \<le> real_of_int (round_even (x / u))" by (simp only: of_int_le_iff)
  then have "2 ^ 52 \<le> real_of_int (round_even (x / u))" by simp
  then have "2 ^ 52 * u \<le> real_of_int (round_even (x / u)) * u"
    using u by (simp only: mult_le_cancel_right_pos)
  then show ?thesis by (simp add: rn_def ux bot)
qed

lemma rn_mono_pos:
  assumes "0 < x" and "x \<le> y"
  shows "rn x \<le> rn y"
proof -
  define Ex where "Ex = max (expo x) (- 1022)"
  define Ey where "Ey = max (expo y) (- 1022)"
  from expo_mono[OF assms] have le: "Ex \<le> Ey" by (simp add: Ex_def Ey_def)
  show ?thesis
  proof (cases "Ex = Ey")
    case True
    then have u: "ulp y = ulp x" by (simp add: ulp_def Ex_def Ey_def)
    have "x / ulp x \<le> y / ulp x" using assms(2) ulp_pos[of x] by (simp add: divide_right_mono)
    from round_even_mono[OF this]
    have "real_of_int (round_even (x / ulp x)) \<le> real_of_int (round_even (y / ulp x))" by simp
    then show ?thesis using ulp_pos[of x] by (simp add: rn_def u)
  next
    case False
    with le have lt: "Ex < Ey" by simp
    then have ey: "Ey = expo y" "- 1022 \<le> expo y" by (auto simp: Ex_def Ey_def max_def split: if_splits)
    from assms have y: "0 < y" by simp
    have "rn x \<le> pow2 (Ex + 1)" using rn_upper[OF assms(1)] by (simp add: Ex_def)
    also have "\<dots> \<le> pow2 Ey" using lt by (intro pow2_mono) simp
    also have "\<dots> \<le> rn y" using rn_lower[OF y ey(2)] ey(1) by simp
    finally show ?thesis .
  qed
qed

lemma rn_mono:
  assumes "x \<le> y"
  shows "rn x \<le> rn y"
proof -
  consider "0 < x" | "x \<le> 0" "0 \<le> y" | "y < 0" by linarith
  then show ?thesis
  proof cases
    case 1
    then show ?thesis using rn_mono_pos assms by simp
  next
    case 2
    then have "0 \<le> rn y" "0 \<le> rn (- x)" by (simp_all add: rn_nonneg)
    then show ?thesis by (simp add: rn_minus)
  next
    case 3
    then have "0 < - y" "- y \<le> - x" using assms by simp_all
    from rn_mono_pos[OF this] show ?thesis by (simp add: rn_minus)
  qed
qed

lemmas eval_rn = rn_def ulp_def pow2_def expo_def round_even_def Let_def compute_floorlog

lemma lit_values:
  "lit (1 / 10) = Finite (3602879701896397 / 36028797018963968)"
  "lit 1 = Finite 1"
  "lit 0 = Finite 0"
  "lit (1 / 50) = Finite (5764607523034235 / 288230376151711744)"
  "lit (1 / 20) = Finite (3602879701896397 / 72057594037927936)"
  "lit 1000 = Finite 1000"
  "lit (3 / 10) = Finite (5404319552844595 / 18014398509481984)"
  by (simp_all add: lit_def eval_number)

lemma rn_values:
  "rn (3602879701896397 / 36028797018963968) = 3602879701896397 / 36028797018963968"
  "rn (1 / 10) = 3602879701896397 / 36028797018963968"
  "rn 1 = 1" "rn 2 = 2" "rn (- 1) = - 1" "rn 100 = 100" "rn 1000 = 1000"
  by (simp_all add: eval_rn)

text \<open>Some familiar values: \<open>0.1 + 0.2\<close> is \<open>0.30000000000000004\<close>, above \<open>0.3\<close>; \<open>1 - 0.3\<close>
  lies half way between two doubles and is rounded to the even one, the double of
  \<open>0.7\<close>; \<open>Math.round\<close> takes a half upwards; \<open>NaN\<close> spreads and compares false.\<close>

lemma rounding_examples:
  "js_add (lit 0.1) (lit 0.2) = Finite (1351079888211149 / 4503599627370496)"
  "lit 0.3 = Finite (5404319552844595 / 18014398509481984)"
  "js_sub (lit 1) (lit 0.3) = lit 0.7"
  "js_lt (lit 0.3) (js_add (lit 0.1) (lit 0.2))"
  "Math_round (lit 2.5) = Finite 3" "Math_round (lit (- 2.5)) = Finite (- 2)"
  "js_add (lit 0.1) NaN = NaN" "Math_min (lit 1) NaN = NaN" "js_lt NaN (lit 1) = False"
  by (simp_all add: lit_def js_sub_def eval_number)

lemma to_number_between:
  assumes "a \<le> x" and "x \<le> b" and "- (2 ^ 1024) < rn a" and "rn b < 2 ^ 1024"
  shows "\<exists>y. to_number x = Finite y \<and> rn a \<le> y \<and> y \<le> rn b"
proof -
  from rn_mono[OF assms(1)] rn_mono[OF assms(2)] have "rn a \<le> rn x" "rn x \<le> rn b" .
  with assms(3,4) show ?thesis by (simp add: to_number_def Let_def)
qed


lemma to_number_not_NaN: "to_number x \<noteq> NaN"
  by (simp add: to_number_def Let_def)

subsection \<open>The seeded registry\<close>

definition seeded :: "nat \<Rightarrow> agent_config \<Rightarrow> string \<times> agent" where
  "seeded now a = (agent_id a, agent_config.extend a (agent.fields (lit 0) (lit 0) now))"

lemma seeded_mk:
  "seeded now (mk_agent i r c sk cs conf avg) =
     (i, \<lparr>agent_id = i, role = r, agent_cluster = c, skills = sk, complexitySupported = cs,
          confidenceScore = conf, avgExecutionTime = avg,
          totalExecutions = lit 0, failureRate = lit 0, createdAt = now\<rparr>)"
  by (simp add: seeded_def mk_agent_def agent_config.extend_def agent.fields_def)

lemma mk_agent_id: "agent_id (mk_agent i r c sk cs conf avg) = i"
  by (simp add: mk_agent_def)

lemma agents_registerCluster: "agents (registerCluster c n d reg) = agents reg"
  by (simp add: registerCluster_def)

lemma agents_registerAgent:
  "agents (registerAgent now a reg) = AList.update (agent_id a) (snd (seeded now a)) (agents reg)"
  by (simp add: registerAgent_def seeded_def Let_def split: option.split)

lemma agents_new_registry:
  "agents (new_registry now) = map (seeded now)
    [mk_agent ''researcher_v1'' ''research_analyst'' ''research''
        [''web-search'', ''documentation'', ''summarization'', ''comparison'']
        [''simple'', ''medium'', ''complex''] (lit 0.85) (lit 2.0),
     mk_agent ''planner_v1'' ''architect'' ''research''
        [''architecture'', ''planning'', ''decomposition'', ''roadmap'']
        [''medium'', ''complex''] (lit 0.80) (lit 3.0),
     mk_agent ''code_agent_v2'' ''backend_engineer'' ''coding''
        [''nodejs'', ''api'', ''database'', ''typescript'', ''python'']
        [''simple'', ''medium'', ''complex''] (lit 0.87) (lit 3.4),
     mk_agent ''code_reviewer_v1'' ''code_reviewer'' ''coding''
        [''review'', ''security-audit'', ''best-practices'', ''optimization'']
        [''medium'', ''complex''] (lit 0.82) (lit 2.1),
     mk_agent ''debugger_v1'' ''debugger'' ''coding''
        [''debugging'', ''error-trace'', ''fix'', ''testing'']
        [''simple'', ''medium'', ''complex''] (lit 0.79) (lit 2.8),
     mk_agent ''devops_agent_v1'' ''devops_engineer'' ''devops''
        [''docker'', ''kubernetes'', ''ci-cd'', ''cloud'', ''monitoring'']
        [''medium'', ''complex''] (lit 0.81) (lit 4.2),
     mk_agent ''infra_agent_v1'' ''infrastructure_engineer'' ''devops''
        [''aws'', ''terraform'', ''networking'', ''security'', ''scaling'']
        [''complex''] (lit 0.76) (lit 5.0),
     mk_agent ''frontend_agent_v1'' ''frontend_engineer'' ''uiux''
        [''react'', ''css'', ''html'', ''javascript'', ''responsive-design'']
        [''simple'', ''medium'', ''complex''] (lit 0.84) (lit 3.0),
     mk_agent ''designer_agent_v1'' ''ux_designer'' ''uiux''
        [''wireframe'', ''mockup'', ''color-theory'', ''accessibility'', ''layout'']
        [''simple'', ''medium''] (lit 0.78) (lit 2.5),
     mk_agent ''test_agent_v1'' ''test_engineer'' ''analysis''
        [''unit-testing'', ''integration-testing'', ''e2e'', ''coverage'']
        [''simple'', ''medium'', ''complex''] (lit 0.83) (lit 2.5),
     mk_agent ''performance_agent_v1'' ''performance_analyst'' ''analysis''
        [''profiling'', ''benchmark'', ''optimization'', ''bottleneck-analysis'']
        [''medium'', ''complex''] (lit 0.80) (lit 4.0),
     mk_agent ''evaluator_agent_v1'' ''meta_evaluator'' ''evaluation''
        [''quality-check'', ''cross-validation'', ''consistency-check'']
        [''medium'', ''complex''] (lit 0.85) (lit 1.5)]"
  by (simp add: new_registry_def initializeDefaults_def agents_registerAgent
      agents_registerCluster seeded_mk mk_agent_id)

lemma new_registry_code_agent:
  "getAgent (new_registry now) ''code_agent_v2'' =
     Some \<lparr>agent_id = ''code_agent_v2'', role = ''backend_engineer'', agent_cluster = ''coding'',
           skills = [''nodejs'', ''api'', ''database'', ''typescript'', ''python''],
           complexitySupported = [''simple'', ''medium'', ''complex''],
           confidenceScore = lit 0.87, avgExecutionTime = lit 3.4,
           totalExecutions = lit 0, failureRate = lit 0, createdAt = now\<rparr>"
  by (simp add: getAgent_def agents_new_registry seeded_mk)

lemma new_registry_researcher:
  "getAgent (new_registry now) ''researcher_v1'' =
     Some \<lparr>agent_id = ''researcher_v1'', role = ''research_analyst'', agent_cluster = ''research'',
           skills = [''web-search'', ''documentation'', ''summarization'', ''comparison''],
           complexitySupported = [''simple'', ''medium'', ''complex''],
           confidenceScore = lit 0.85, avgExecutionTime = lit 2.0,
           totalExecutions = lit 0, failureRate = lit 0, createdAt = now\<rparr>"
  by (simp add: getAgent_def agents_new_registry seeded_mk)

subsection \<open>Confidence bounds\<close>

definition bounded :: "number \<Rightarrow> bool" where
  "bounded c = (js_le (lit 0.1) c \<and> js_le c (lit 1.0))"

lemma bounded_simps:
  "bounded (Finite v) \<longleftrightarrow> 3602879701896397 / 36028797018963968 \<le> v \<and> v \<le> 1"
  "\<not> bounded NaN" "\<not> bounded PosInfinity" "\<not> bounded NegInfinity"
  by (auto simp: bounded_def lit_values)

lemma boundedE:
  assumes "bounded c"
  obtains v where "c = Finite v" "3602879701896397 / 36028797018963968 \<le> v" "v \<le> 1"
  using assms by (cases c) (simp_all add: bounded_simps)

lemma boost_bounded:
  assumes "bounded c"
  shows "bounded (Math_min (lit 1.0) (js_add c (lit 0.02)))"
proof -
  from assms obtain v where c: "c = Finite v"
    and v: "3602879701896397 / 36028797018963968 \<le> v" "v \<le> 1" by (rule boundedE)
  let ?w = "5764607523034235 / 288230376151711744 :: real"
  have "3602879701896397 / 36028797018963968 \<le> v + ?w" "v + ?w \<le> 2"
    using v by simp_all
  from to_number_between[OF this] obtain y where
    "to_number (v + ?w) = Finite y" "3602879701896397 / 36028797018963968 \<le> y"
    by (auto simp: rn_values)
  then show ?thesis by (simp add: c lit_values bounded_simps)
qed

lemma penalty_bounded:
  assumes "bounded c"
  shows "bounded (Math_max (lit 0.1) (js_sub c (lit 0.05)))"
proof -
  from assms obtain v where c: "c = Finite v"
    and v: "3602879701896397 / 36028797018963968 \<le> v" "v \<le> 1" by (rule boundedE)
  let ?w = "3602879701896397 / 72057594037927936 :: real"
  have "- 1 \<le> v - ?w" "v - ?w \<le> 1"
    using v by simp_all
  from to_number_between[OF this] obtain y where
    "to_number (v - ?w) = Finite y" "y \<le> 1"
    by (auto simp: rn_values)
  then show ?thesis by (simp add: c lit_values js_sub_def bounded_simps)
qed

lemma clamp_bounded:
  assumes "d \<noteq> NaN"
  shows "bounded (Math_max (lit 0.1) (Math_min (lit 1.0) (js_add (Finite v) d)))"
proof -
  have "js_add (Finite v) d \<noteq> NaN"
    using assms to_number_not_NaN by (cases d) simp_all
  then show ?thesis
    by (cases "js_add (Finite v) d") (simp_all add: lit_values bounded_simps)
qed

lemma round_bounded:
  assumes "bounded c"
  shows "bounded (js_div (Math_round (js_mul c (lit 1000))) (lit 1000))"
proof -
  from assms obtain y where c: "c = Finite y"
    and y: "3602879701896397 / 36028797018963968 \<le> y" "y \<le> 1" by (rule boundedE)
  have "100 \<le> y * 1000" "y * 1000 \<le> 1000" using y by simp_all
  from to_number_between[OF this] obtain t where
    t: "to_number (y * 1000) = Finite t" "100 \<le> t" "t \<le> 1000"
    by (auto simp: rn_values)
  define k where "k = \<lfloor>t + 1 / 2\<rfloor>"
  have k: "100 \<le> k" "k \<le> 1000" using t(2,3) unfolding k_def by linarith+
  then have "1 / 10 \<le> real_of_int k / 1000" "real_of_int k / 1000 \<le> 1" by simp_all
  from to_number_between[OF this] obtain z where
    "to_number (real_of_int k / 1000) = Finite z" "3602879701896397 / 36028797018963968 \<le> z" "z \<le> 1"
    by (auto simp: rn_values)
  then show ?thesis by (simp add: c lit_values t(1) k_def bounded_simps)
qed

definition conf_ok :: "registry \<Rightarrow> bool" where
  "conf_ok reg = (\<forall>(k, a) \<in> set (agents reg). bounded (confidenceScore a))"


lemma set_update_subset: "set (AList.update k v al) \<subseteq> insert (k, v) (set al)"
  by (induction al) auto

lemma conf_ok_update:
  assumes "conf_ok reg" and "bounded (confidenceScore a)"
  shows "conf_ok (reg\<lparr>agents := AList.update k a (agents reg)\<rparr>)"
  using assms set_update_subset[of k a "agents reg"]
  by (fastforce simp: conf_ok_def)

lemma conf_ok_updateAgentMetrics:
  assumes "conf_ok reg"
  shows "conf_ok (updateAgentMetrics k m reg)"
proof (cases "map_of (agents reg) k")
  case None
  then show ?thesis using assms by (simp add: updateAgentMetrics_def)
next
  case (Some a0)
  then have "(k, a0) \<in> set (agents reg)" by (rule map_of_SomeD)
  with assms have b: "bounded (confidenceScore a0)"
    by (auto simp: conf_ok_def)
  show ?thesis
    unfolding updateAgentMetrics_def Some option.case Let_def
    by (rule conf_ok_update[OF assms])
       (use b boost_bounded[OF b] penalty_bounded[OF b] in simp)
qed

lemma conf_ok_apply_one:
  assumes "conf_ok reg" and "u_delta u \<noteq> NaN"
  shows "conf_ok (apply_one (config new_learning) u reg)"
proof (cases "getAgent reg (u_agentId u)")
  case None
  then show ?thesis using assms by (simp add: apply_one_def)
next
  case (Some a)
  then have "(u_agentId u, a) \<in> set (agents reg)"
    unfolding getAgent_def by (rule map_of_SomeD)
  with assms(1) have "bounded (confidenceScore a)" by (auto simp: conf_ok_def)
  then obtain v where v: "confidenceScore a = Finite v" by (rule boundedE)
  have "bounded (js_div (Math_round (js_mul
          (Math_max (lit 0.1) (Math_min (lit 1.0) (js_add (Finite v) (u_delta u))))
          (lit 1000))) (lit 1000))"
    by (rule round_bounded) (rule clamp_bounded[OF assms(2)])
  then show ?thesis
    unfolding apply_one_def Some option.case Let_def
    by (intro conf_ok_update[OF assms(1)]) (simp add: new_learning_def v)
qed

lemma conf_ok_fold_apply:
  "conf_ok reg \<Longrightarrow> NaN \<notin> u_delta ` set us \<Longrightarrow>
   conf_ok (fold (apply_one (config new_learning)) us reg)"
proof (induction us arbitrary: reg)
  case Nil
  then show ?case by simp
next
  case (Cons u us)
  from Cons.prems have "u_delta u \<noteq> NaN" "NaN \<notin> u_delta ` set us" by auto
  with Cons.IH[of "apply_one (config new_learning) u reg"] Cons.prems(1)
  show ?case by (simp add: conf_ok_apply_one)
qed

lemma fold_registry_step_inv:
  "config (fst s) = config new_learning \<Longrightarrow> conf_ok (snd s) \<Longrightarrow>
   NaN \<notin> u_delta ` set (updateQueue (fst s)) \<Longrightarrow> NaN \<notin> set (queued_deltas ops) \<Longrightarrow>
   conf_ok (snd (fold registry_step ops s))"
proof (induction ops arbitrary: s)
  case Nil
  then show ?case by simp
next
  case (Cons op ops)
  obtain ls reg where s: "s = (ls, reg)" by (cases s)
  show ?case
  proof (cases op)
    case (UpdateMetrics k m)
    with Cons.prems s show ?thesis
      by (simp add: Cons.IH conf_ok_updateAgentMetrics)
  next
    case (Enqueue us)
    with Cons.prems s show ?thesis
      by (simp add: Cons.IH image_Un)
  next
    case ApplyUpdates
    with Cons.prems s show ?thesis
      by (simp add: Cons.IH applyUpdates_def Let_def conf_ok_fold_apply)
  qed
qed

lemma conf_ok_new_registry: "conf_ok (new_registry now)"
  by (simp add: conf_ok_def agents_new_registry seeded_mk bounded_def lit_def eval_number)

text \<open>
  Claim C6, as the source has it.  The constructor seeds twelve agents (the claim
  says eleven), each with a confidence in \<open>[0.1, 1.0]\<close>.  After any history of
  \<open>updateAgentMetrics\<close> calls (with any duration, \<open>NaN\<close> included), pushes onto the
  update queue of updates whose deltas are numbers other than \<open>NaN\<close> (the
  infinities included), and \<open>applyUpdates\<close> calls, every agent of the registry has
  \<open>0.1 <= confidenceScore\<close> and \<open>confidenceScore <= 1.0\<close>, in doubles.  A history may
  stop anywhere, so the bound holds at every point of it.  It does not hold for
  arbitrary deltas (as the claim says): a queued \<open>NaN\<close> makes the confidence \<open>NaN\<close>.
\<close>

theorem confidence_bounds:
  assumes "NaN \<notin> set (queued_deltas ops)"
  shows "length (agents (new_registry now)) = 12 \<and>
   (\<forall>(k, a) \<in> set (agents (snd (run_registry now ops))).
      js_le (lit 0.1) (confidenceScore a) \<and> js_le (confidenceScore a) (lit 1.0))"
proof
  show "length (agents (new_registry now)) = 12"
    by (simp add: agents_new_registry)
  have "conf_ok (snd (run_registry now ops))"
    unfolding run_registry_def
    by (rule fold_registry_step_inv) (simp_all add: conf_ok_new_registry new_learning_def assms)
  then show "\<forall>(k, a) \<in> set (agents (snd (run_registry now ops))).
      js_le (lit 0.1) (confidenceScore a) \<and> js_le (confidenceScore a) (lit 1.0)"
    by (simp add: conf_ok_def bounded_def)
qed

lemma sample_ops_result:
  "map_option confidenceScore
     (map_of (agents (snd (run_registry 0 sample_ops))) ''code_agent_v2'') = Some (Finite 1)"
  by (simp add: run_registry_def sample_ops_def updateAgentMetrics_def agents_new_registry
        seeded_mk applyUpdates_def apply_one_def getAgent_def new_learning_def Let_def
        lit_def js_sub_def eval_number)

lemma sample_ops_deltas: "NaN \<notin> set (queued_deltas sample_ops)"
  by (simp add: sample_ops_def lit_def to_number_def Let_def)

theorem confidence_bounds_witness:
  "NaN \<notin> set (queued_deltas sample_ops) \<and>
   map_option confidenceScore
     (map_of (agents (snd (run_registry 0 sample_ops))) ''code_agent_v2'') = Some (Finite 1) \<and>
   js_le (lit 0.1) (Finite 1) \<and> js_le (Finite 1) (lit 1.0)"
proof -
  from sample_ops_result obtain a where
    a: "map_of (agents (snd (run_registry 0 sample_ops))) ''code_agent_v2'' = Some a"
       "confidenceScore a = Finite 1"
    by auto
  from a(1) have "(''code_agent_v2'', a) \<in> set (agents (snd (run_registry 0 sample_ops)))"
    by (rule map_of_SomeD)
  with confidence_bounds[OF sample_ops_deltas, of 0] a(2)
  have "js_le (lit 0.1) (Finite 1) \<and> js_le (Finite 1) (lit 1.0)" by auto
  with sample_ops_deltas sample_ops_result show ?thesis by simp
qed

text \<open>The claim fails in its count, and in its bound for a delta that is \<open>NaN\<close>: the
  confidence of the agent becomes \<open>NaN\<close>, for which \<open>0.1 <= confidenceScore\<close> is false.\<close>

theorem confidence_lost_to_NaN:
  "length (agents (new_registry 0)) = 12 \<and>
   map_option confidenceScore
     (map_of (agents (snd (run_registry 0 nan_ops))) ''code_agent_v2'') = Some NaN \<and>
   js_le (lit 0.1) NaN = False"
  by (simp add: run_registry_def nan_ops_def agents_new_registry
        seeded_mk applyUpdates_def apply_one_def getAgent_def new_learning_def Let_def
        lit_def eval_number)

subsection \<open>The local confidence update\<close>

text \<open>
  Claim C7, as the source has it.  For a call of \<open>updateAgentMetrics\<close> on an agent of
  the registry: the average execution time becomes
  \<open>avgExecutionTime * (1 - 0.3) + duration * 0.3\<close>, in doubles; if the execution did
  not fail and its duration is below this new average, the confidence becomes
  \<open>Math.min(1.0, confidenceScore + 0.02)\<close>; if it failed, the confidence becomes
  \<open>Math.max(0.1, confidenceScore - 0.05)\<close>; otherwise it keeps its value.  The test
  reads the average that the call has just overwritten, not the one held when the
  call began (as the claim says).
\<close>

theorem updateAgentMetrics_confidence:
  assumes "getAgent reg k = Some a"
  shows "\<exists>b. getAgent (updateAgentMetrics k m reg) k = Some b \<and>
           avgExecutionTime b =
             js_add (js_mul (avgExecutionTime a) (js_sub (lit 1) (lit 0.3)))
                    (js_mul (m_duration m) (lit 0.3)) \<and>
           confidenceScore b =
             (if \<not> m_failed m \<and> js_lt (m_duration m) (avgExecutionTime b)
              then Math_min (lit 1.0) (js_add (confidenceScore a) (lit 0.02))
              else if m_failed m then Math_max (lit 0.1) (js_sub (confidenceScore a) (lit 0.05))
              else confidenceScore a)"
  using assms
  by (auto simp: getAgent_def updateAgentMetrics_def Let_def AList.update_conv')

lemma code_agent_values:
  "js_add (js_mul (lit (17 / 5)) (js_sub (lit 1) (lit (3 / 10)))) (js_mul (lit 1) (lit (3 / 10))) =
     Finite (377176468792279 / 140737488355328)"
  "Math_min (lit 1) (js_add (lit (87 / 100)) (lit (1 / 50))) =
     Finite (8016407336719483 / 9007199254740992)"
  by (simp_all add: lit_def js_sub_def eval_number)

theorem updateAgentMetrics_confidence_witness:
  "getAgent (new_registry 0) ''code_agent_v2'' \<noteq> None \<and>
   (\<exists>b. getAgent (updateAgentMetrics ''code_agent_v2'' \<lparr>m_duration = lit 1, m_failed = False\<rparr>
            (new_registry 0)) ''code_agent_v2'' = Some b \<and>
        avgExecutionTime b = Finite (377176468792279 / 140737488355328) \<and>
        confidenceScore b = Finite (8016407336719483 / 9007199254740992))"
proof -
  from updateAgentMetrics_confidence[OF new_registry_code_agent[of 0],
      of "\<lparr>m_duration = lit 1, m_failed = False\<rparr>"]
  obtain b where b: "getAgent (updateAgentMetrics ''code_agent_v2''
        \<lparr>m_duration = lit 1, m_failed = False\<rparr> (new_registry 0)) ''code_agent_v2'' = Some b"
    and avg: "avgExecutionTime b = Finite (377176468792279 / 140737488355328)"
    and conf: "confidenceScore b =
        (if js_lt (lit 1) (avgExecutionTime b)
         then Finite (8016407336719483 / 9007199254740992) else lit 0.87)"
    by (elim exE conjE) (simp add: code_agent_values)
  have "js_lt (lit 1) (Finite (377176468792279 / 140737488355328))"
    by (simp add: lit_def eval_number)
  with b avg conf show ?thesis by (simp add: new_registry_code_agent)
qed

lemma researcher_update:
  "getAgent (updateAgentMetrics ''researcher_v1'' just_below_two (new_registry 0)) ''researcher_v1'' =
     Some \<lparr>agent_id = ''researcher_v1'', role = ''research_analyst'', agent_cluster = ''research'',
           skills = [''web-search'', ''documentation'', ''summarization'', ''comparison''],
           complexitySupported = [''simple'', ''medium'', ''complex''],
           confidenceScore = Finite (7656119366529843 / 9007199254740992),
           avgExecutionTime = Finite (9007199254740991 / 4503599627370496),
           totalExecutions = Finite 1, failureRate = Finite 0, createdAt = 0\<rparr>"
  by (simp add: getAgent_def updateAgentMetrics_def agents_new_registry seeded_mk Let_def
        just_below_two_def lit_def js_sub_def eval_number)

text \<open>A duration below the average held when the call begins does not suffice:
  \<open>researcher_v1\<close> has the average 2; for a successful execution of duration
  \<open>2 - 2^(-52)\<close> the new average is rounded to the duration itself, the test fails and
  the confidence stays 0.85, where the claim has \<open>0.85 + 0.02 = 0.87\<close>.\<close>

theorem boost_missed_below_average:
  "map_option avgExecutionTime (getAgent (new_registry 0) ''researcher_v1'') = Some (Finite 2) \<and>
   map_option confidenceScore (getAgent (new_registry 0) ''researcher_v1'') =
     Some (Finite (7656119366529843 / 9007199254740992)) \<and>
   m_duration just_below_two = Finite (9007199254740991 / 4503599627370496) \<and>
   m_failed just_below_two = False \<and>
   js_lt (m_duration just_below_two) (Finite 2) \<and>
   map_option avgExecutionTime
     (getAgent (updateAgentMetrics ''researcher_v1'' just_below_two (new_registry 0))
        ''researcher_v1'') = Some (Finite (9007199254740991 / 4503599627370496)) \<and>
   map_option confidenceScore
     (getAgent (updateAgentMetrics ''researcher_v1'' just_below_two (new_registry 0))
        ''researcher_v1'') = Some (Finite (7656119366529843 / 9007199254740992)) \<and>
   Math_min (lit 1.0) (js_add (Finite (7656119366529843 / 9007199254740992)) (lit 0.02)) =
     Finite (7836263351624663 / 9007199254740992)"
  by (simp add: researcher_update)
     (simp add: new_registry_researcher just_below_two_def lit_def eval_number)

subsection \<open>The performance log\<close>

lemma recordPerformance_length:
  "length (performanceMemory mem) \<le> 1000 \<Longrightarrow>
   length (performanceMemory (recordPerformance now e mem)) \<le> 1000"
  by (simp add: recordPerformance_def Let_def)

lemma run_memory_length:
  "length (performanceMemory mem) \<le> 1000 \<Longrightarrow>
   length (performanceMemory (run_memory calls mem)) \<le> 1000"
  unfolding run_memory_def
  by (induction calls arbitrary: mem) (auto simp: recordPerformance_length)

lemma run_memory_replicate:
  "n + length (performanceMemory mem) \<le> 1000 \<Longrightarrow>
   performanceMemory (run_memory (replicate n (t, e)) mem)
     = performanceMemory mem @ replicate n (perf_entry.extend e (perf_record.fields t))"
  unfolding run_memory_def
  by (induction n arbitrary: mem)
     (simp_all add: recordPerformance_def Let_def replicate_app_Cons_same)

text \<open>
  Claim C8.  After any sequence of \<open>recordPerformance\<close> calls on a fresh memory the
  performance log holds at most 1000 entries (a sequence may stop anywhere, so this
  holds at every point of it); and a call whose push takes the log past 1000
  entries leaves exactly the newest 500: the tail of the log with the new entry at
  its end.
\<close>

theorem performance_log_capped:
  "length (performanceMemory (run_memory calls new_memory)) \<le> 1000 \<and>
   (length (performanceMemory mem) + 1 > 1000 \<longrightarrow>
      performanceMemory (recordPerformance now e mem) =
        drop (length (performanceMemory mem) + 1 - 500)
          (performanceMemory mem @ [perf_entry.extend e (perf_record.fields now)]) \<and>
      length (performanceMemory (recordPerformance now e mem)) = 500)"
  by (simp add: run_memory_length new_memory_def) (simp add: recordPerformance_def Let_def)

theorem performance_log_capped_witness:
  "length (performanceMemory (run_memory (replicate 1000 (0, sample_entry)) new_memory)) + 1 > 1000 \<and>
   length (performanceMemory (recordPerformance 7 sample_entry
       (run_memory (replicate 1000 (0, sample_entry)) new_memory))) = 500"
  using performance_log_capped[of "[]"
     "run_memory (replicate 1000 (0, sample_entry)) new_memory" 7 sample_entry]
  by (simp add: run_memory_replicate new_memory_def)

subsection \<open>The wave computation\<close>

lemma mark_fst: "map fst (mark c ns) = map fst ns"
  by (simp add: mark_def)

lemma mark_deps: "map (\<lambda>e. n_dependsOn (snd e)) (mark c ns) = map (\<lambda>e. n_dependsOn (snd e)) ns"
  by (simp add: mark_def)

lemma mark_nth:
  "i < length ns \<Longrightarrow> fst (mark c ns ! i) = fst (ns ! i) \<and>
     n_dependsOn (snd (mark c ns ! i)) = n_dependsOn (snd (ns ! i)) \<and>
     n_task (snd (mark c ns ! i)) = n_task (snd (ns ! i)) \<and>
     n_status (snd (mark c ns ! i)) = (if ready c (ns ! i) then Scheduled else n_status (snd (ns ! i)))"
  by (simp add: mark_def)

lemma fold_set_add_fresh:
  "distinct ks \<Longrightarrow> set ks \<inter> set c = {} \<Longrightarrow> fold set_add ks c = c @ ks"
  by (induction ks arbitrary: c) (auto simp: set_add_def)

lemma progress:
  assumes inv: "wave_inv ns ws completed" and lt: "length completed < length ns"
  shows "filter (ready completed) ns \<noteq> []"
proof -
  from inv have dk: "distinct (map fst ns)" and dc: "distinct completed"
    and sub: "set completed \<subseteq> fst ` set ns"
    and st: "\<forall>e\<in>set ns. (n_status (snd e) = Pending) = (fst e \<notin> set completed)"
    and ord: "\<forall>i<length ns. \<forall>d\<in>set (n_dependsOn (snd (ns ! i))). \<exists>j<i. fst (ns ! j) = d"
    unfolding wave_inv_def by blast+
  have "card (set completed) < card (fst ` set ns)"
    using lt dk dc by (metis distinct_card length_map set_map)
  with sub have "\<exists>k. k \<in> fst ` set ns \<and> k \<notin> set completed"
    by (metis subsetI subset_antisym less_irrefl)
  then have ex: "\<exists>i. i < length ns \<and> fst (ns ! i) \<notin> set completed"
    by (metis imageE in_set_conv_nth)
  define i where "i = (LEAST i. i < length ns \<and> fst (ns ! i) \<notin> set completed)"
  from ex have i: "i < length ns" "fst (ns ! i) \<notin> set completed"
    unfolding i_def by (metis (mono_tags, lifting) LeastI_ex)+
  have least: "j < i \<Longrightarrow> fst (ns ! j) \<in> set completed" for j
    using not_less_Least[of j "\<lambda>i. i < length ns \<and> fst (ns ! i) \<notin> set completed"] i(1)
    unfolding i_def by auto
  have "list_all (\<lambda>depId. depId \<in> set completed) (n_dependsOn (snd (ns ! i)))"
    using ord i(1) least by (fastforce simp: list_all_iff)
  moreover have "n_status (snd (ns ! i)) = Pending"
    using st i by (metis nth_mem)
  ultimately have "ready completed (ns ! i)" using i by (simp add: ready_def)
  then show ?thesis using i(1) by (metis filter_empty_conv nth_mem)
qed


lemma fold_set_add_keys:
  "\<forall>e\<in>set wave. f e = fst e \<Longrightarrow>
   fold (\<lambda>e. set_add (f e)) wave c = fold set_add (map fst wave) c"
  by (induction wave arbitrary: c) auto

lemma distinct_key_eq:
  "distinct (map fst ns) \<Longrightarrow> x \<in> set ns \<Longrightarrow> y \<in> set ns \<Longrightarrow> fst x = fst y \<Longrightarrow> x = y"
  by (auto simp: distinct_map dest: inj_onD)

lemma wave_inv_step:
  assumes inv: "wave_inv ns ws completed"
  defines "wave \<equiv> filter (ready completed) ns"
  shows "wave_inv (mark completed ns) (ws @ [map fst wave])
           (fold (\<lambda>e. set_add (task_id (n_task (snd e)))) wave completed)"
proof -
  from inv have dk: "distinct (map fst ns)"
    and ids: "\<forall>e\<in>set ns. task_id (n_task (snd e)) = fst e"
    and cw: "completed = concat ws" and dc: "distinct completed"
    and sub: "set completed \<subseteq> fst ` set ns"
    and st: "\<forall>e\<in>set ns. (n_status (snd e) = Pending) = (fst e \<notin> set completed)"
    and ord: "\<forall>i<length ns. \<forall>d\<in>set (n_dependsOn (snd (ns ! i))). \<exists>j<i. fst (ns ! j) = d"
    and wd: "wave_deps ns ws"
    unfolding wave_inv_def by blast+
  have wsub: "set wave \<subseteq> set ns" by (auto simp: wave_def)
  have dw: "distinct (map fst wave)" unfolding wave_def using dk by (rule distinct_map_filter)
  have fresh: "set (map fst wave) \<inter> set completed = {}"
    by (auto simp: wave_def ready_def)
  have "fold (\<lambda>e. set_add (task_id (n_task (snd e)))) wave completed
      = fold set_add (map fst wave) completed"
    by (rule fold_set_add_keys) (use ids wsub in auto)
  also have "\<dots> = completed @ map fst wave" using dw fresh by (rule fold_set_add_fresh)
  finally have c': "fold (\<lambda>e. set_add (task_id (n_task (snd e)))) wave completed
      = completed @ map fst wave" .
  have inwave: "e \<in> set ns \<Longrightarrow> fst e \<in> set (map fst wave) \<Longrightarrow> ready completed e" for e
  proof -
    assume e: "e \<in> set ns" and "fst e \<in> set (map fst wave)"
    then obtain w where w: "w \<in> set wave" "fst w = fst e" by auto
    with wsub e dk have "w = e" by (auto intro: distinct_key_eq)
    with w show ?thesis by (simp add: wave_def)
  qed
  have markE: "e' \<in> set (mark completed ns) \<Longrightarrow>
      \<exists>e\<in>set ns. fst e' = fst e \<and> n_task (snd e') = n_task (snd e) \<and>
        n_dependsOn (snd e') = n_dependsOn (snd e) \<and>
        n_status (snd e') = (if ready completed e then Scheduled else n_status (snd e))" for e'
  proof -
    assume "e' \<in> set (mark completed ns)"
    then have "e' \<in> (\<lambda>e. if ready completed e
        then (fst e, (snd e)\<lparr>n_status := Scheduled\<rparr>) else e) ` set ns"
      by (simp add: mark_def)
    then obtain e where e: "e \<in> set ns"
      "e' = (if ready completed e then (fst e, (snd e)\<lparr>n_status := Scheduled\<rparr>) else e)"
      by (rule imageE)
    then show ?thesis by (intro bexI[of _ e]) auto
  qed
  have 1: "distinct (map fst (mark completed ns))" using dk by (simp add: mark_fst)
  have 2: "\<forall>e\<in>set (mark completed ns). task_id (n_task (snd e)) = fst e"
    using ids by (auto simp: mark_def)
  have 3: "completed @ map fst wave = concat (ws @ [map fst wave])" using cw by simp
  have 4: "distinct (completed @ map fst wave)" using dc dw fresh by auto
  have 5: "set (completed @ map fst wave) \<subseteq> fst ` set (mark completed ns)"
  proof -
    have "fst ` set (mark completed ns) = fst ` set ns"
      by (metis mark_fst set_map)
    then show ?thesis using sub wsub by auto
  qed
  have 6: "\<forall>e\<in>set (mark completed ns).
        (n_status (snd e) = Pending) = (fst e \<notin> set (completed @ map fst wave))"
  proof
    fix e' assume "e' \<in> set (mark completed ns)"
    from markE[OF this] obtain e where e: "e \<in> set ns" "fst e' = fst e"
      "n_status (snd e') = (if ready completed e then Scheduled else n_status (snd e))"
      by blast
    show "(n_status (snd e') = Pending) = (fst e' \<notin> set (completed @ map fst wave))"
    proof (cases "ready completed e")
      case True
      then have "e \<in> set wave" using e(1) by (simp add: wave_def)
      then have "fst e \<in> set (map fst wave)" by simp
      with True e show ?thesis by simp
    next
      case False
      then have "fst e \<notin> set (map fst wave)" using inwave[OF e(1)] by blast
      with False e st show ?thesis by auto
    qed
  qed
  have 7: "\<forall>i<length (mark completed ns).
        \<forall>d\<in>set (n_dependsOn (snd (mark completed ns ! i))). \<exists>j<i. fst (mark completed ns ! j) = d"
  proof (intro allI impI ballI)
    fix i d assume i: "i < length (mark completed ns)"
      and d: "d \<in> set (n_dependsOn (snd (mark completed ns ! i)))"
    then have i': "i < length ns" by (simp add: mark_def)
    with d ord obtain j where "j < i" "fst (ns ! j) = d" using mark_nth[OF i', of completed] by auto
    then show "\<exists>j<i. fst (mark completed ns ! j) = d"
      using mark_nth[of j ns completed] i' by auto
  qed
  have 8: "wave_deps (mark completed ns) (ws @ [map fst wave])"
    unfolding wave_deps_def
  proof (intro allI impI ballI)
    fix i e' d
    assume i: "i < length (ws @ [map fst wave])"
      and e': "e' \<in> set (mark completed ns)"
      and k: "fst e' \<in> set ((ws @ [map fst wave]) ! i)"
      and d: "d \<in> set (n_dependsOn (snd e'))"
    from markE[OF e'] obtain e where e: "e \<in> set ns" "fst e' = fst e"
      "n_dependsOn (snd e') = n_dependsOn (snd e)" by blast
    show "\<exists>j<i. d \<in> set ((ws @ [map fst wave]) ! j)"
    proof (cases "i < length ws")
      case True
      with k e have "fst e \<in> set (ws ! i)" by (simp add: nth_append)
      with wd True e d obtain j where j: "j < i" "d \<in> set (ws ! j)"
        unfolding wave_deps_def by metis
      with True have "d \<in> set ((ws @ [map fst wave]) ! j)" by (simp add: nth_append)
      with j(1) show ?thesis by blast
    next
      case False
      with i have il: "i = length ws" by simp
      with k e have "fst e \<in> set (map fst wave)" by simp
      from inwave[OF e(1) this] d e(3) have "d \<in> set completed"
        by (auto simp: ready_def list_all_iff)
      then obtain w where "w \<in> set ws" "d \<in> set w" using cw by auto
      then obtain j where j: "j < length ws" "d \<in> set (ws ! j)" by (metis in_set_conv_nth)
      then have "d \<in> set ((ws @ [map fst wave]) ! j)" by (simp add: nth_append)
      with j(1) il show ?thesis by blast
    qed
  qed
  show ?thesis
    unfolding wave_inv_def c'
    by (intro conjI 1 2 3 4 5 6 7 8)
qed

lemma computeWaves_loop_ok:
  assumes "wave_inv ns ws completed" and "computeWaves_loop ns ws completed = (ws', ns')"
  shows "distinct (concat ws') \<and> set (concat ws') = fst ` set ns' \<and>
         wave_deps ns' ws' \<and> map fst ns' = map fst ns"
  using assms
proof (induction ns ws completed rule: computeWaves_loop.induct)
  case (1 ns ws completed)
  note inv = "1.prems"(1)
  show ?case
  proof (cases "length completed < length ns")
    case True
    define wave where "wave = filter (ready completed) ns"
    from progress[OF inv True] have ne: "length wave \<noteq> 0" by (simp add: wave_def)
    have step: "wave_inv (mark completed ns) (ws @ [map fst wave])
           (fold (\<lambda>e. set_add (task_id (n_task (snd e)))) wave completed)"
      unfolding wave_def by (rule wave_inv_step[OF inv])
    have "computeWaves_loop ns ws completed =
        computeWaves_loop (mark completed ns) (ws @ [map fst wave])
           (fold (\<lambda>e. set_add (task_id (n_task (snd e)))) wave completed)"
      using computeWaves_loop.simps[of ns ws completed] True ne
      by (simp add: Let_def wave_def mark_def)
    with "1.prems"(2)
    have eq: "computeWaves_loop (mark completed ns) (ws @ [map fst wave])
           (fold (\<lambda>e. set_add (task_id (n_task (snd e)))) wave completed) = (ws', ns')"
      by simp
    from "1.IH"[OF True wave_def ne step[unfolded mark_def] eq[unfolded mark_def]]
    show ?thesis by (simp add: mark_def)
  next
    case False
    with "1.prems"(2) computeWaves_loop.simps[of ns ws completed]
    have r: "ws' = ws" "ns' = ns"
      by simp_all
    from inv have dk: "distinct (map fst ns)"
      and cw: "completed = concat ws" and dc: "distinct completed"
      and sub: "set completed \<subseteq> fst ` set ns" and wd: "wave_deps ns ws"
      unfolding wave_inv_def by blast+
    have "card (fst ` set ns) \<le> card (set completed)"
      using False dk dc by (metis distinct_card length_map set_map not_less)
    with sub have "set completed = fst ` set ns"
      by (metis card_seteq finite_imageI finite_set)
    with r cw dc wd show ?thesis by simp
  qed
qed


lemma update_fresh: "k \<notin> fst ` set ns \<Longrightarrow> AList.update k v ns = ns @ [(k, v)]"
  by (induction ns) auto

lemma fold_update_fresh:
  "distinct (map key ts) \<Longrightarrow> key ` set ts \<inter> fst ` set ns0 = {} \<Longrightarrow>
   fold (\<lambda>t ns. AList.update (key t) (f t) ns) ts ns0 = ns0 @ map (\<lambda>t. (key t, f t)) ts"
proof (induction ts arbitrary: ns0)
  case Nil
  then show ?case by simp
next
  case (Cons t ts)
  from Cons.prems have fresh: "key t \<notin> fst ` set ns0" by auto
  have "key ` set ts \<inter> fst ` set (ns0 @ [(key t, f t)]) = {}"
    using Cons.prems by auto
  with Cons.IH[of "ns0 @ [(key t, f t)]"] Cons.prems(1) show ?case
    by (simp add: update_fresh[OF fresh])
qed

lemma skel_update_dependents:
  "map_of ns k = Some nd \<Longrightarrow>
   map skel (AList.update k (nd\<lparr>dependents := x\<rparr>) ns) = map skel ns"
  by (induction ns) (auto simp: skel_def)

lemma skel_inner:
  "map skel (fold (\<lambda>depId ns'.
       case map_of ns' depId of
         None \<Rightarrow> ns'
       | Some depNode \<Rightarrow>
           AList.update depId (depNode\<lparr>dependents := set_add tid (dependents depNode)\<rparr>) ns')
     ds ns) = map skel ns"
  by (induction ds arbitrary: ns) (auto simp: skel_update_dependents split: option.splits)

lemma skel_outer:
  "map skel (fold (\<lambda>t ns.
       fold (\<lambda>depId ns'.
          case map_of ns' depId of
            None \<Rightarrow> ns'
          | Some depNode \<Rightarrow>
              AList.update depId
                (depNode\<lparr>dependents := set_add (task_id t) (dependents depNode)\<rparr>) ns')
         (dependsOn t) ns) ts ns) = map skel ns"
  by (induction ts arbitrary: ns) (simp_all add: skel_inner)

lemma set_new_set: "set (new_set xs) = set xs"
proof -
  have "set (fold set_add xs acc) = set xs \<union> set acc" for acc
    by (induction xs arbitrary: acc) (auto simp: set_add_def)
  then show ?thesis by (simp add: new_set_def)
qed

lemma deps_earlier_nth:
  "deps_earlier seen ts \<Longrightarrow> i < length ts \<Longrightarrow> dep \<in> set (dependsOn (ts ! i)) \<Longrightarrow>
   dep \<in> set seen \<or> (\<exists>j<i. task_id (ts ! j) = dep)"
proof (induction ts arbitrary: seen i)
  case Nil
  then show ?case by simp
next
  case (Cons t ts)
  show ?case
  proof (cases i)
    case 0
    with Cons.prems show ?thesis by (auto simp: list_all_iff)
  next
    case (Suc i')
    with Cons.prems have "deps_earlier (seen @ [task_id t]) ts" "i' < length ts"
      "dep \<in> set (dependsOn (ts ! i'))" by auto
    from Cons.IH[OF this] have "dep \<in> set seen \<or> dep = task_id t \<or> (\<exists>j<i'. task_id (ts ! j) = dep)"
      by auto
    then show ?thesis
    proof (elim disjE)
      assume "dep \<in> set seen" then show ?thesis by simp
    next
      assume "dep = task_id t"
      then have "0 < i \<and> task_id ((t # ts) ! 0) = dep" using Suc by simp
      then show ?thesis by blast
    next
      assume "\<exists>j<i'. task_id (ts ! j) = dep"
      then obtain j where "j < i'" "task_id (ts ! j) = dep" by blast
      then have "Suc j < i \<and> task_id ((t # ts) ! Suc j) = dep" using Suc by simp
      then show ?thesis by blast
    qed
  qed
qed

lemma wave_inv_initial:
  assumes wf: "well_formed d" and sk: "map skel ns = map skel (initial_nodes (tasks d))"
  shows "wave_inv ns [] []"
proof -
  let ?ts = "tasks d"
  have "length (map skel ns) = length (map skel (initial_nodes ?ts))"
    by (simp only: sk)
  then have len: "length ns = length ?ts"
    by (simp add: initial_nodes_def)
  have nth: "skel (ns ! i) = (task_id (?ts ! i), ?ts ! i, new_set (dependsOn (?ts ! i)), Pending)"
    if "i < length ?ts" for i
  proof -
    have "skel (ns ! i) = map skel ns ! i" using that len by simp
    also have "\<dots> = skel (initial_nodes ?ts ! i)" using that sk by (simp add: initial_nodes_def)
    finally show ?thesis using that by (simp add: initial_nodes_def skel_def)
  qed
  have fst_eq: "map fst ns = map task_id ?ts"
  proof (rule nth_equalityI)
    show "length (map fst ns) = length (map task_id ?ts)" using len by simp
    fix i assume "i < length (map fst ns)"
    then have "i < length ?ts" using len by simp
    from nth[OF this] show "map fst ns ! i = map task_id ?ts ! i"
      using \<open>i < length ?ts\<close> len by (simp add: skel_def)
  qed
  have all: "\<forall>e\<in>set ns. task_id (n_task (snd e)) = fst e \<and> n_status (snd e) = Pending"
  proof
    fix e assume "e \<in> set ns"
    then obtain i where "i < length ns" "ns ! i = e" by (metis in_set_conv_nth)
    with nth[of i] len show "task_id (n_task (snd e)) = fst e \<and> n_status (snd e) = Pending"
      by (auto simp: skel_def)
  qed
  have ord: "\<forall>i<length ns. \<forall>dep\<in>set (n_dependsOn (snd (ns ! i))). \<exists>j<i. fst (ns ! j) = dep"
  proof (intro allI impI ballI)
    fix i dep assume i: "i < length ns" and dep: "dep \<in> set (n_dependsOn (snd (ns ! i)))"
    from i len have i': "i < length ?ts" by simp
    from nth[OF i'] dep have "dep \<in> set (dependsOn (?ts ! i))"
      by (simp add: skel_def set_new_set)
    with wf i' have "\<exists>j<i. task_id (?ts ! j) = dep"
      using deps_earlier_nth[of "[]" ?ts i dep] by (simp add: well_formed_def)
    then obtain j where j: "j < i" "task_id (?ts ! j) = dep" by blast
    with i' have "fst (ns ! j) = dep" using nth[of j] by (simp add: skel_def)
    with j(1) show "\<exists>j<i. fst (ns ! j) = dep" by blast
  qed
  show ?thesis
    unfolding wave_inv_def wave_deps_def
    using wf fst_eq all ord by (simp add: well_formed_def)
qed

lemma concat_unique_index:
  "distinct (concat ws) \<Longrightarrow> i < length ws \<Longrightarrow> j < length ws \<Longrightarrow>
   k \<in> set (ws ! i) \<Longrightarrow> k \<in> set (ws ! j) \<Longrightarrow> i = j"
proof (induction ws arbitrary: i j)
  case Nil
  then show ?case by simp
next
  case (Cons w ws)
  from Cons.prems(1) have d: "distinct (concat ws)" and dis: "set w \<inter> set (concat ws) = {}"
    by auto
  show ?case
  proof (cases i; cases j)
    fix i' j' assume "i = Suc i'" "j = Suc j'"
    with Cons.prems Cons.IH[OF d, of i' j'] show ?thesis by simp
  next
    fix j' assume "i = 0" "j = Suc j'"
    with Cons.prems have "k \<in> set w" "k \<in> set (concat ws)" by auto
    with dis show ?thesis by blast
  next
    fix i' assume "i = Suc i'" "j = 0"
    with Cons.prems have "k \<in> set w" "k \<in> set (concat ws)" by auto
    with dis show ?thesis by blast
  qed simp
qed

lemma buildDAG_unfold:
  assumes "distinct (map task_id (tasks d))"
  shows "\<exists>ns. map skel ns = map skel (initial_nodes (tasks d)) \<and>
     computeWaves_loop ns [] [] = (dag_waves (buildDAG d), dag_nodes (buildDAG d))"
proof -
  define nodes0 where "nodes0 = fold (\<lambda>t ns. AList.update (task_id t)
                      \<lparr>n_task = t, n_dependsOn = new_set (dependsOn t), dependents = [],
                       n_status = Pending, n_result = None\<rparr> ns) (tasks d) []"
  define nodes1 where "nodes1 = fold (\<lambda>t ns.
                      fold (\<lambda>depId ns'.
                              case map_of ns' depId of
                                None \<Rightarrow> ns'
                              | Some depNode \<Rightarrow>
                                  AList.update depId
                                    (depNode\<lparr>dependents := set_add (task_id t) (dependents depNode)\<rparr>) ns')
                           (dependsOn t) ns) (tasks d) nodes0"
  have "nodes0 = initial_nodes (tasks d)"
    unfolding nodes0_def initial_nodes_def
    using fold_update_fresh[OF assms, of "[]"] by simp
  then have "map skel nodes1 = map skel (initial_nodes (tasks d))"
    unfolding nodes1_def by (simp add: skel_outer)
  moreover have "computeWaves_loop nodes1 [] [] = (dag_waves (buildDAG d), dag_nodes (buildDAG d))"
    by (simp add: buildDAG_def Let_def computeWaves_def nodes0_def nodes1_def split: prod.split)
  ultimately show ?thesis by blast
qed

lemma mark_core: "map core (mark c ns) = map core ns"
  by (induction ns) (simp_all add: mark_def core_def)

lemma computeWaves_loop_core:
  assumes "computeWaves_loop ns ws completed = (ws', ns')"
  shows "map core ns' = map core ns"
  using assms
proof (induction ns ws completed rule: computeWaves_loop.induct)
  case (1 ns ws completed)
  define wave where "wave = filter (ready completed) ns"
  show ?case
  proof (cases "length completed < length ns \<and> length wave \<noteq> 0")
    case True
    then have lt: "length completed < length ns" and ne: "length wave \<noteq> 0" by simp_all
    have "computeWaves_loop ns ws completed =
        computeWaves_loop (mark completed ns) (ws @ [map fst wave])
           (fold (\<lambda>e. set_add (task_id (n_task (snd e)))) wave completed)"
      using computeWaves_loop.simps[of ns ws completed] lt ne
      by (simp add: Let_def wave_def mark_def)
    with "1.prems"
    have eq: "computeWaves_loop (mark completed ns) (ws @ [map fst wave])
           (fold (\<lambda>e. set_add (task_id (n_task (snd e)))) wave completed) = (ws', ns')"
      by simp
    from "1.IH"[OF lt wave_def ne eq[unfolded mark_def]]
    have "map core ns' = map core (mark completed ns)" by (simp add: mark_def)
    then show ?thesis by (simp add: mark_core)
  next
    case False
    with "1.prems" computeWaves_loop.simps[of ns ws completed]
    have "ns' = ns" by (auto simp: Let_def wave_def split: if_splits)
    then show ?thesis by simp
  qed
qed

lemma core_of_skel: "map skel xs = map skel ys \<Longrightarrow> map core xs = map core ys"
proof -
  assume "map skel xs = map skel ys"
  then have "map (\<lambda>(k, t, ds, st). (k, t, ds)) (map skel xs) =
             map (\<lambda>(k, t, ds, st). (k, t, ds)) (map skel ys)" by simp
  then show ?thesis by (simp add: skel_def core_def[abs_def] o_def)
qed

text \<open>
  Claim C2.  For a decomposition whose task ids are unique and whose \<open>dependsOn\<close> ids
  are ids of earlier tasks, \<open>buildDAG\<close> makes one node per task, in the order of the
  tasks, which holds the task and has as dependencies the ids of the task's
  \<open>dependsOn\<close>; the flattened waves have as many entries as there are nodes; every
  node is in exactly one wave; and in every wave (the first included, whose tasks
  then have no dependencies) each id in the \<open>dependsOn\<close> of each task, and so each
  dependency of each node, lies in a wave of strictly smaller index.
\<close>

theorem buildDAG_waves:
  assumes "well_formed d"
  shows "map fst (dag_nodes (buildDAG d)) = map task_id (tasks d) \<and>
     map (\<lambda>e. (n_task (snd e), set (n_dependsOn (snd e)))) (dag_nodes (buildDAG d)) =
       map (\<lambda>t. (t, set (dependsOn t))) (tasks d) \<and>
     length (concat (dag_waves (buildDAG d))) = length (dag_nodes (buildDAG d)) \<and>
     (\<forall>k \<in> fst ` set (dag_nodes (buildDAG d)).
        \<exists>!i. i < length (dag_waves (buildDAG d)) \<and> k \<in> set (dag_waves (buildDAG d) ! i)) \<and>
     (\<forall>i < length (dag_waves (buildDAG d)). \<forall>t \<in> set (tasks d).
        task_id t \<in> set (dag_waves (buildDAG d) ! i) \<longrightarrow>
        (\<forall>dep \<in> set (dependsOn t). \<exists>j<i. dep \<in> set (dag_waves (buildDAG d) ! j))) \<and>
     (\<forall>i < length (dag_waves (buildDAG d)). \<forall>e \<in> set (dag_nodes (buildDAG d)).
        fst e \<in> set (dag_waves (buildDAG d) ! i) \<longrightarrow>
        (\<forall>dep \<in> set (n_dependsOn (snd e)). \<exists>j<i. dep \<in> set (dag_waves (buildDAG d) ! j)))"
proof -
  let ?ws = "dag_waves (buildDAG d)" and ?ns = "dag_nodes (buildDAG d)"
  from assms have dist: "distinct (map task_id (tasks d))" by (simp add: well_formed_def)
  from buildDAG_unfold[OF dist] obtain ns where
    sk: "map skel ns = map skel (initial_nodes (tasks d))" and
    run: "computeWaves_loop ns [] [] = (?ws, ?ns)" by blast
  from computeWaves_loop_ok[OF wave_inv_initial[OF assms sk] run]
  have dc: "distinct (concat ?ws)" and cover: "set (concat ?ws) = fst ` set ?ns"
    and wd: "wave_deps ?ns ?ws" by blast+
  have "map core ?ns = map core (initial_nodes (tasks d))"
    using computeWaves_loop_core[OF run] core_of_skel[OF sk] by simp
  then have cores: "map core ?ns = map (\<lambda>t. (task_id t, t, new_set (dependsOn t))) (tasks d)"
    by (simp add: initial_nodes_def core_def o_def)
  have "map fst ?ns = map (\<lambda>c. fst c) (map core ?ns)" by (simp add: core_def o_def)
  then have 1: "map fst ?ns = map task_id (tasks d)" unfolding cores by (simp add: o_def)
  have "map (\<lambda>e. (n_task (snd e), set (n_dependsOn (snd e)))) ?ns =
        map (\<lambda>c. (fst (snd c), set (snd (snd c)))) (map core ?ns)"
    by (simp add: core_def o_def)
  then have 2: "map (\<lambda>e. (n_task (snd e), set (n_dependsOn (snd e)))) ?ns =
        map (\<lambda>t. (t, set (dependsOn t))) (tasks d)"
    unfolding cores by (simp add: o_def set_new_set)
  from 1 dist have dk: "distinct (map fst ?ns)" by simp
  have "length (concat ?ws) = card (set (concat ?ws))" using dc by (metis distinct_card)
  also have "\<dots> = card (set (map fst ?ns))" using cover by simp
  also have "\<dots> = length ?ns" using dk by (metis distinct_card length_map)
  finally have 3: "length (concat ?ws) = length ?ns" .
  have 4: "\<forall>k \<in> fst ` set ?ns. \<exists>!i. i < length ?ws \<and> k \<in> set (?ws ! i)"
  proof
    fix k assume "k \<in> fst ` set ?ns"
    with cover have "k \<in> set (concat ?ws)" by simp
    then obtain w where "w \<in> set ?ws" "k \<in> set w" by auto
    then obtain i where i: "i < length ?ws" "k \<in> set (?ws ! i)" by (metis in_set_conv_nth)
    show "\<exists>!i. i < length ?ws \<and> k \<in> set (?ws ! i)"
    proof (rule ex1I[of _ i])
      show "i < length ?ws \<and> k \<in> set (?ws ! i)" using i by simp
      fix j assume "j < length ?ws \<and> k \<in> set (?ws ! j)"
      with i concat_unique_index[OF dc, of j i k] show "j = i" by simp
    qed
  qed
  have 6: "\<forall>i < length ?ws. \<forall>e \<in> set ?ns. fst e \<in> set (?ws ! i) \<longrightarrow>
        (\<forall>dep \<in> set (n_dependsOn (snd e)). \<exists>j<i. dep \<in> set (?ws ! j))"
    using wd unfolding wave_deps_def by blast
  have 5: "\<forall>i < length ?ws. \<forall>t \<in> set (tasks d). task_id t \<in> set (?ws ! i) \<longrightarrow>
        (\<forall>dep \<in> set (dependsOn t). \<exists>j<i. dep \<in> set (?ws ! j))"
  proof (intro allI impI ballI)
    fix i t dep
    assume i: "i < length ?ws" and t: "t \<in> set (tasks d)"
      and w: "task_id t \<in> set (?ws ! i)" and dep: "dep \<in> set (dependsOn t)"
    from t obtain n where n: "n < length (tasks d)" "tasks d ! n = t"
      by (metis in_set_conv_nth)
    have len: "length ?ns = length (tasks d)"
      using arg_cong[OF 1, of length] by simp
    define e where "e = ?ns ! n"
    have e: "e \<in> set ?ns" using n(1) len by (simp add: e_def)
    have "map fst ?ns ! n = map task_id (tasks d) ! n" by (simp only: 1)
    then have fe: "fst e = task_id t" using n len by (simp add: e_def)
    have "map (\<lambda>e. (n_task (snd e), set (n_dependsOn (snd e)))) ?ns ! n =
          map (\<lambda>t. (t, set (dependsOn t))) (tasks d) ! n" by (simp only: 2)
    then have de: "set (n_dependsOn (snd e)) = set (dependsOn t)"
      using n len by (simp add: e_def)
    from 6 i e w fe have "\<forall>dep \<in> set (n_dependsOn (snd e)). \<exists>j<i. dep \<in> set (?ws ! j)"
      by simp
    with dep de show "\<exists>j<i. dep \<in> set (?ws ! j)" by simp
  qed
  from 1 2 3 4 5 6 show ?thesis by (intro conjI)
qed


lemma diamond_well_formed: "well_formed diamond"
  by (simp add: well_formed_def diamond_def mk_task_def)

lemma diamond_waves: "dag_waves (buildDAG diamond) = [[''A''], [''B'', ''C''], [''D'']]"
  by code_simp

theorem buildDAG_waves_witness:
  "well_formed diamond \<and>
   dag_waves (buildDAG diamond) = [[''A''], [''B'', ''C''], [''D'']] \<and>
   map fst (dag_nodes (buildDAG diamond)) = [''A'', ''B'', ''C'', ''D''] \<and>
   map (\<lambda>e. set (n_dependsOn (snd e))) (dag_nodes (buildDAG diamond)) =
     [{}, {''A''}, {''A''}, {''B'', ''C''}] \<and>
   length (concat (dag_waves (buildDAG diamond))) = length (dag_nodes (buildDAG diamond))"
proof -
  from buildDAG_waves[OF diamond_well_formed]
  have 1: "map fst (dag_nodes (buildDAG diamond)) = map task_id (tasks diamond)"
    and 2: "map (\<lambda>e. (n_task (snd e), set (n_dependsOn (snd e)))) (dag_nodes (buildDAG diamond)) =
       map (\<lambda>t. (t, set (dependsOn t))) (tasks diamond)"
    and 3: "length (concat (dag_waves (buildDAG diamond))) = length (dag_nodes (buildDAG diamond))"
    by simp_all
  have "map (\<lambda>e. set (n_dependsOn (snd e))) (dag_nodes (buildDAG diamond)) =
        map snd (map (\<lambda>e. (n_task (snd e), set (n_dependsOn (snd e)))) (dag_nodes (buildDAG diamond)))"
    by (simp add: o_def)
  then have 4: "map (\<lambda>e. set (n_dependsOn (snd e))) (dag_nodes (buildDAG diamond)) =
     [{}, {''A''}, {''A''}, {''B'', ''C''}]"
    unfolding 2 by (simp add: diamond_def mk_task_def)
  from 1 3 4 diamond_well_formed diamond_waves show ?thesis
    by (simp add: diamond_def mk_task_def)
qed


subsection \<open>Failed tasks and their dependents\<close>

text \<open>
  Claim C1, which the code does not meet.  The claim: after a wave in which a task
  failed, its dependents are walked transitively, the pending ones are set to
  skipped, and a skipped node is not dispatched but yields a skipped result with
  zero duration and no output.  The code, on the chain A, B, C (B depends on A, C
  on B) with a pool that rejects A: B and C are dispatched all the same and their
  results are completed, with the pool's output and duration; no node ever has the
  status skipped.  \<open>computeWaves\<close> has set every node to scheduled, so the test for
  pending in \<open>skipDependents\<close> never holds, and \<open>execute\<close> does not look at the status
  of a node before it dispatches it.
\<close>

theorem dependents_of_failed_task_dispatched:
  "dag_waves (buildDAG chain) = [[''A''], [''B''], [''C'']] \<and>
   map (\<lambda>r. (r_taskId r, r_status r, r_wave r, r_output r, r_duration r))
     (e_results (fst (dag_execute (buildDAG chain) chain_allocation failing_pool))) =
     [(''A'', Failed, 0, None, 0),
      (''B'', Completed, 1, Some ''done'', 120),
      (''C'', Completed, 2, Some ''done'', 120)] \<and>
   map (\<lambda>e. (fst e, dependents (snd e), n_status (snd e)))
     (snd (dag_execute (buildDAG chain) chain_allocation failing_pool)) =
     [(''A'', [''B''], Failed), (''B'', [''C''], Completed), (''C'', [], Completed)]"
  by code_simp

subsection \<open>The bound of the worker pool\<close>

text \<open>When no job is submitted between the call of a resolver and the resumption of
  its waiter, the slots in use and the slots promised to woken calls together stay
  within \<open>maxWorkers\<close>, and so does \<open>activeWorkers\<close>.\<close>

lemma pool_run_Cons:
  "pool_run (ev # evs) p = (case pool_step ev p of None \<Rightarrow> None | Some p' \<Rightarrow> pool_run evs p')"
proof -
  have "fold (\<lambda>ev s. Option.bind s (pool_step ev)) evs None = None"
    by (induction evs) simp_all
  then show ?thesis by (simp add: pool_run_def split: option.split)
qed

lemma reserved_step:
  assumes "reserved p" and "pool_step ev p = Some p'"
    and "case ev of Submit job \<Rightarrow> woken p = [] | Resume \<Rightarrow> True | Settle job resolved \<Rightarrow> True"
  shows "reserved p'"
  using assms
  by (cases ev)
     (auto simp: pool_step_def reserved_def admit_def processQueue_def Let_def
           split: list.splits if_splits)

lemma pool_bound_undisturbed:
  assumes "reserved p" and "undisturbed evs p" and "pool_run evs p = Some p'"
  shows "activeWorkers p' \<le> maxWorkers p'"
proof -
  have "reserved p'" using assms
  proof (induction evs arbitrary: p)
    case Nil
    then show ?case by (simp add: pool_run_def)
  next
    case (Cons ev evs)
    from Cons.prems(3) obtain q where q: "pool_step ev p = Some q" "pool_run evs q = Some p'"
      by (auto simp: pool_run_Cons split: option.splits)
    from Cons.prems(2) q(1) have u: "undisturbed evs q"
      and c: "case ev of Submit job \<Rightarrow> woken p = [] | Resume \<Rightarrow> True | Settle job resolved \<Rightarrow> True"
      by simp_all
    from Cons.IH[OF reserved_step[OF Cons.prems(1) q(1) c] u q(2)] show ?case .
  qed
  then show ?thesis by (simp add: reserved_def)
qed

lemma overtaking_disturbed: "\<not> undisturbed overtaking (new_pool 1)"
  by (simp add: overtaking_def new_pool_def pool_step_def admit_def processQueue_def Let_def)

lemma overtaking_run:
  "pool_run overtaking (new_pool 1) =
     Some \<lparr>maxWorkers = 1, activeWorkers = 2, queue = [], totalExecuted = 1, totalFailed = 0,
           woken = [], in_flight = [''c'', ''b'']\<rparr>"
  by (simp add: pool_run_def overtaking_def new_pool_def pool_step_def admit_def
        processQueue_def Let_def)

text \<open>
  Claim C9, which the code does not meet.  The claim: the number of jobs in flight
  never exceeds \<open>maxWorkers\<close>, and suspended submissions are resumed in the order in
  which they came.  The code, for a pool with \<open>maxWorkers = 1\<close>: job a is admitted;
  job b is suspended; a completes, \<open>activeWorkers\<close> drops to 0 and the resolver of b
  is called; before b resumes, job c is submitted, finds \<open>0 < 1\<close> and is admitted;
  then b resumes and increments \<open>activeWorkers\<close> without testing the bound.  Two jobs
  are in flight, \<open>activeWorkers\<close> is 2, and c, submitted after b, has started before
  it.  The counter is decremented when the resolver is called and incremented only
  when the waiter resumes, so between the two the slot is free for any caller.
\<close>

theorem pool_exceeds_maxWorkers:
  "map_option maxWorkers (pool_run overtaking (new_pool 1)) = Some 1 \<and>
   map_option activeWorkers (pool_run overtaking (new_pool 1)) = Some 2 \<and>
   map_option in_flight (pool_run overtaking (new_pool 1)) = Some [''c'', ''b''] \<and>
   map_option in_flight (pool_run (take 2 overtaking) (new_pool 1)) = Some [''a''] \<and>
   map_option queue (pool_run (take 2 overtaking) (new_pool 1)) = Some [''b''] \<and>
   map_option woken (pool_run (take 3 overtaking) (new_pool 1)) = Some [''b''] \<and>
   map_option activeWorkers (pool_run (take 3 overtaking) (new_pool 1)) = Some 0 \<and>
   map_option in_flight (pool_run (take 4 overtaking) (new_pool 1)) = Some [''c'']"
  by (simp add: overtaking_run)
     (simp add: pool_run_def overtaking_def new_pool_def pool_step_def admit_def
        processQueue_def Let_def)


subsection \<open>Allocation\<close>

lemma find_app:
  "find P (xs @ ys) = (case find P xs of None \<Rightarrow> find P ys | Some x \<Rightarrow> Some x)"
  by (induction xs) auto

lemma map_of_fold_update:
  "map_of (fold (\<lambda>t m. AList.update (key t) (val t) m) ts m0) k =
     (case find (\<lambda>t. key t = k) (rev ts) of None \<Rightarrow> map_of m0 k | Some t \<Rightarrow> Some (val t))"
  by (induction ts arbitrary: m0) (auto simp: AList.update_conv' find_app split: option.splits)

lemma assignToTask_empty: "assignToTask t sel cx = [] \<longleftrightarrow> sel = []"
  by (cases sel) (auto simp: assignToTask_def slice0_def Let_def)

lemma classify_deploy: "classify (parseInput ''deploy'') = deploy_intent"
  by code_simp

lemma decompose_deploy: "decompose sample_uuid (parseInput ''deploy'') deploy_intent = deploy_tasks"
  by code_simp

lemma score_deploy: "js_score deploy_tasks = Some deploy_complexity"
  by code_simp

lemmas eval_allocate = allocate_def secondaryAgents_def findAgents_def agents_new_registry
  seeded_mk truthy_def Let_def selectAgents_def slice0_def assignToTask_def getStrategy_def
  js_sort_def js_sub_def lit_def eval_number

lemma allocate_deploy:
  "allocate (new_registry 0) deploy_tasks deploy_complexity deploy_intent =
   \<lparr>alloc_agents = [], assignments = [(''1a2b3c4d'', [])], strategy = ''direct_execution''\<rparr>"
  by (simp add: eval_allocate deploy_tasks_def deploy_complexity_def deploy_intent_def)

text \<open>
  Claim C3, as the source has it.  In every allocation every task id of the
  decomposition is a key of \<open>assignments\<close>, and the list it is mapped to is non-empty
  exactly when the selected agent set is non-empty.  \<open>allocate\<close> has no error path:
  with an empty selection it returns an allocation whose agent list is empty and in
  which every task is mapped to the empty list.
\<close>

theorem allocate_assignments:
  "\<forall>t \<in> set (tasks d).
     \<exists>ids. map_of (assignments (allocate reg d cx it)) (task_id t) = Some ids \<and>
           (ids \<noteq> [] \<longleftrightarrow> alloc_agents (allocate reg d cx it) \<noteq> [])"
proof
  fix t assume t: "t \<in> set (tasks d)"
  define sel where "sel = alloc_agents (allocate reg d cx it)"
  have asg: "assignments (allocate reg d cx it) =
      fold (\<lambda>t m. AList.update (task_id t) (map agent_id (assignToTask t sel cx)) m) (tasks d) []"
    by (simp add: allocate_def Let_def sel_def)
  from t have "find (\<lambda>u. task_id u = task_id t) (rev (tasks d)) \<noteq> None"
    by (auto simp: find_None_iff)
  then obtain u where u: "find (\<lambda>u. task_id u = task_id t) (rev (tasks d)) = Some u" by auto
  have "map_of (assignments (allocate reg d cx it)) (task_id t)
      = Some (map agent_id (assignToTask u sel cx))"
    unfolding asg map_of_fold_update u by simp
  then show "\<exists>ids. map_of (assignments (allocate reg d cx it)) (task_id t) = Some ids \<and>
           (ids \<noteq> [] \<longleftrightarrow> alloc_agents (allocate reg d cx it) \<noteq> [])"
    by (simp add: assignToTask_empty sel_def)
qed

text \<open>The request \<open>deploy\<close>: its intent is devops, its complexity is simple, and no agent
  of the devops cluster supports simple tasks.  The allocation is returned, with no
  agents and an empty list for the task.\<close>

theorem allocate_assignments_witness:
  "hd (tasks deploy_tasks) \<in> set (tasks deploy_tasks) \<and>
   map_of (assignments (allocate (new_registry 0) deploy_tasks deploy_complexity deploy_intent))
     (task_id (hd (tasks deploy_tasks))) = Some [] \<and>
   alloc_agents (allocate (new_registry 0) deploy_tasks deploy_complexity deploy_intent) = []"
proof -
  have m: "hd (tasks deploy_tasks) \<in> set (tasks deploy_tasks)"
    by (simp add: deploy_tasks_def)
  have e: "alloc_agents (allocate (new_registry 0) deploy_tasks deploy_complexity deploy_intent) = []"
    by (simp add: allocate_deploy)
  from allocate_assignments[of deploy_tasks "new_registry 0" deploy_complexity deploy_intent] m
  obtain ids where
    "map_of (assignments (allocate (new_registry 0) deploy_tasks deploy_complexity deploy_intent))
       (task_id (hd (tasks deploy_tasks))) = Some ids"
    "ids \<noteq> [] \<longleftrightarrow>
       alloc_agents (allocate (new_registry 0) deploy_tasks deploy_complexity deploy_intent) \<noteq> []"
    by blast
  with m e show ?thesis by simp
qed

theorem allocate_without_agents:
  "classify (parseInput ''deploy'') = deploy_intent \<and>
   decompose sample_uuid (parseInput ''deploy'') deploy_intent = deploy_tasks \<and>
   js_score deploy_tasks = Some deploy_complexity \<and>
   allocate (new_registry 0) deploy_tasks deploy_complexity deploy_intent =
     \<lparr>alloc_agents = [], assignments = [(''1a2b3c4d'', [])], strategy = ''direct_execution''\<rparr>"
  by (simp add: classify_deploy decompose_deploy score_deploy allocate_deploy)

lemma classify_deploy_docker_build:
  "classify (parseInput ''deploy docker build'') = devops_build_intent"
  by code_simp

text \<open>
  Claim C5, which the code does not meet.  The claim: the secondary pool is the
  union of the lookups by the cluster of each secondary intent.  The code passes
  the type of the secondary intent as the cluster.  For the request
  \<open>deploy docker build\<close> the secondary intents are code and design, whose clusters are
  coding and uiux: the code finds no agent, the lookup by cluster finds four.
\<close>

theorem secondary_pool_uses_type_as_cluster:
  "classify (parseInput ''deploy docker build'') = devops_build_intent \<and>
   map agent_id (secondaryAgents (new_registry 0) deploy_complexity devops_build_intent) = [] \<and>
   map agent_id (secondary_pool_spec (new_registry 0) deploy_complexity devops_build_intent) =
     [''code_agent_v2'', ''debugger_v1'', ''frontend_agent_v1'', ''designer_agent_v1'']"
  by (simp add: classify_deploy_docker_build)
     (simp add: secondaryAgents_def secondary_pool_spec_def findAgents_def agents_new_registry
        seeded_mk truthy_def Let_def devops_build_intent_def deploy_complexity_def patterns_def
        js_sort_def js_sub_def lit_def eval_number)


subsection \<open>The request of scenario 3\<close>

lemma classify_oauth: "classify (parseInput oauth_input) = oauth_intent"
  by code_simp

lemma split_oauth: "splitIntoSubtasks oauth_input =
   [\<lparr>st_text = ''research OAuth'', st_connector = []\<rparr>,
    \<lparr>st_text = ''build API'', st_connector = ''then''\<rparr>,
    \<lparr>st_text = ''deploy to production'', st_connector = ''then''\<rparr>]"
  by code_simp

lemma oauth_parts:
  "isSequentialMarker [] = False" "isSequentialMarker ''then'' = True"
  "trim ''research OAuth'' = ''research OAuth''" "trim ''build API'' = ''build API''"
  "trim ''deploy to production'' = ''deploy to production''"
  "calculatePriority ''research OAuth'' oauth_intent = 2"
  "calculatePriority ''build API'' oauth_intent = 2"
  "calculatePriority ''deploy to production'' oauth_intent = 2"
  by code_simp+

lemma decompose_oauth:
  assumes "take 8 (uuid 0) \<noteq> []" "take 8 (uuid 1) \<noteq> []"
  shows "decompose uuid (parseInput oauth_input) oauth_intent =
     \<lparr>tasks = oauth_tasks (take 8 (uuid 0)) (take 8 (uuid 1)) (take 8 (uuid 2)),
      totalTasks = 3, hasParallelizable = False\<rparr>"
  using assms
  by (simp add: decompose_def parseInput_def split_oauth oauth_parts Let_def truthy_def
      oauth_tasks_def numeral_2_eq_2) (simp add: oauth_intent_def)


lemma riskFactor_descriptions:
  "calculateRiskFactor ts = calculateRiskFactor (map (\<lambda>t. t\<lparr>task_id := [], dependsOn := []\<rparr>) ts)"
  by (simp add: calculateRiskFactor_def fold_map o_def)

lemma risk_oauth: "calculateRiskFactor (oauth_tasks i0 i1 i2) = 7 / 5"
proof -
  have "calculateRiskFactor
      (map (\<lambda>t. t\<lparr>task_id := [], dependsOn := []\<rparr>) (oauth_tasks [] [] [])) = 7 / 5"
    by code_simp
  moreover have "map (\<lambda>t. t\<lparr>task_id := [], dependsOn := []\<rparr>) (oauth_tasks i0 i1 i2)
      = map (\<lambda>t. t\<lparr>task_id := [], dependsOn := []\<rparr>) (oauth_tasks [] [] [])"
    by (simp add: oauth_tasks_def)
  ultimately show ?thesis
    by (subst riskFactor_descriptions) simp
qed

lemma waves_oauth:
  assumes "distinct [i0, i1, i2]"
  shows "calculateWaves (oauth_tasks i0 i1 i2) = Some 3"
proof -
  from assms have ne: "i0 \<noteq> i1" "i1 \<noteq> i0" "i0 \<noteq> i2" "i2 \<noteq> i0" "i1 \<noteq> i2" "i2 \<noteq> i1"
    by auto
  show ?thesis
    by (simp add: calculateWaves_def oauth_tasks_def Let_def ne List.map_filter_def)
qed

lemma score_oauth:
  assumes "distinct [i0, i1, i2]"
  shows "js_score \<lparr>tasks = oauth_tasks i0 i1 i2, totalTasks = 3, hasParallelizable = False\<rparr> =
     Some \<lparr>score = 7, level = ''medium'', agentCount = 4, waves = 3,
           details = \<lparr>subtaskCount = 3, dependencyWeight = 167 / 100, riskFactor = 7 / 5\<rparr>\<rparr>"
proof -
  have len: "length (oauth_tasks i0 i1 i2) = 3"
    and deps: "fold (\<lambda>t acc. acc + length (dependsOn t)) (oauth_tasks i0 i1 i2) 0 = 2"
    by (simp_all add: oauth_tasks_def)
  have dw: "1 + real 2 / real (max 3 1) = 5 / 3" by simp
  have sc: "real_of_int (round (real 3 * (5 / 3) * (7 / 5) * 10)) / 10 = 7" by simp
  have ac: "round (22 / 5 :: real) = 4" by (simp add: round_def)
  have d1: "real_of_int (round ((5 / 3) * 100 :: real)) / 100 = 167 / 100" by (simp add: round_def)
  have d2: "real_of_int (round ((7 / 5) * 100 :: real)) / 100 = 7 / 5" by (simp add: round_def)
  show ?thesis
    unfolding js_score_def Let_def
    by (simp only: complexity.simps decomposition.simps len deps risk_oauth waves_oauth[OF assms]
          dw sc ac d1 d2 option.case prod.case)
       (simp add: ac)
qed


lemma dag_oauth:
  assumes "distinct [i0, i1, i2]"
  shows "dag_waves (buildDAG \<lparr>tasks = oauth_tasks i0 i1 i2, totalTasks = 3,
            hasParallelizable = False\<rparr>) = [[i0], [i1], [i2]]"
proof -
  from assms have ne: "i0 \<noteq> i1" "i1 \<noteq> i0" "i0 \<noteq> i2" "i2 \<noteq> i0" "i1 \<noteq> i2" "i2 \<noteq> i1"
    by auto
  show ?thesis
    by (simp add: buildDAG_def computeWaves_def Let_def oauth_tasks_def ne new_set_def
          set_add_def computeWaves_loop.simps ready_def split: prod.split)
qed


lemma strategy_allocate: "strategy (allocate reg d cx it) = getStrategy (level cx)"
  by (simp add: allocate_def Let_def)

lemma e_waves_dag_execute: "e_waves (fst (dag_execute g alloc pool)) = length (dag_waves g)"
  by (simp add: dag_execute_def split: prod.split)

lemma oauth_request:
  assumes "distinct [take 8 (uuid 0), take 8 (uuid 1), take 8 (uuid 2)]"
    and "take 8 (uuid 0) \<noteq> []" and "take 8 (uuid 1) \<noteq> []"
  shows "orchestrator_execute uuid pool reg oauth_input =
     OutputForm
       \<lparr>p_intent = Some oauth_intent,
        p_decomposition = Some \<lparr>tasks = oauth_tasks (take 8 (uuid 0)) (take 8 (uuid 1)) (take 8 (uuid 2)),
            totalTasks = 3, hasParallelizable = False\<rparr>,
        p_complexity = Some medium_complexity,
        p_agents = Some (allocate reg
            \<lparr>tasks = oauth_tasks (take 8 (uuid 0)) (take 8 (uuid 1)) (take 8 (uuid 2)),
             totalTasks = 3, hasParallelizable = False\<rparr> medium_complexity oauth_intent),
        p_execution = Some (fst (dag_execute
            (buildDAG \<lparr>tasks = oauth_tasks (take 8 (uuid 0)) (take 8 (uuid 1)) (take 8 (uuid 2)),
               totalTasks = 3, hasParallelizable = False\<rparr>)
            (allocate reg
              \<lparr>tasks = oauth_tasks (take 8 (uuid 0)) (take 8 (uuid 1)) (take 8 (uuid 2)),
               totalTasks = 3, hasParallelizable = False\<rparr> medium_complexity oauth_intent)
            pool))\<rparr>"
  by (simp only: orchestrator_execute_def Let_def classify_oauth
        decompose_oauth[OF assms(2,3)] score_oauth[OF assms(1), folded medium_complexity_def]
        option.case)

lemma oauth_summary:
  assumes "distinct [take 8 (uuid 0), take 8 (uuid 1), take 8 (uuid 2)]"
    and "take 8 (uuid 0) \<noteq> []" and "take 8 (uuid 1) \<noteq> []"
  shows "\<not> is_error (orchestrator_execute uuid pool reg oauth_input) \<and>
     map_option (\<lambda>d. map (\<lambda>t. (task_id t, description t, dependsOn t)) (tasks d))
       (p_decomposition (outcome_pipeline (orchestrator_execute uuid pool reg oauth_input))) =
       Some [(take 8 (uuid 0), ''research OAuth'', []),
             (take 8 (uuid 1), ''build API'', [take 8 (uuid 0)]),
             (take 8 (uuid 2), ''deploy to production'', [take 8 (uuid 1)])] \<and>
     map_option waves (p_complexity (outcome_pipeline (orchestrator_execute uuid pool reg oauth_input))) = Some 3 \<and>
     map_option e_waves (p_execution (outcome_pipeline (orchestrator_execute uuid pool reg oauth_input))) = Some 3 \<and>
     map_option score (p_complexity (outcome_pipeline (orchestrator_execute uuid pool reg oauth_input))) = Some 7 \<and>
     map_option level (p_complexity (outcome_pipeline (orchestrator_execute uuid pool reg oauth_input))) = Some ''medium'' \<and>
     map_option strategy (p_agents (outcome_pipeline (orchestrator_execute uuid pool reg oauth_input))) = Some ''parallel_pool''"
  unfolding oauth_request[OF assms]
  using dag_oauth[OF assms(1)]
  by (simp add: is_error_def outcome_pipeline_def strategy_allocate e_waves_dag_execute
        medium_complexity_def getStrategy_def)
     (simp add: oauth_tasks_def)

lemma sample_ids:
  "take 8 (sample_uuid 0) = ''1a2b3c4d''" "take 8 (sample_uuid 1) = ''5e6f7a8b''"
  "take 8 (sample_uuid 2) = ''9c0d1e2f''" "take 8 (sample_uuid (Suc 0)) = ''5e6f7a8b''"
  by (simp_all add: sample_uuid_def)

lemma sample_uuid_ids:
  "distinct [take 8 (sample_uuid 0), take 8 (sample_uuid 1), take 8 (sample_uuid 2)]"
  "take 8 (sample_uuid 0) \<noteq> []" "take 8 (sample_uuid 1) \<noteq> []"
  by (simp_all add: sample_uuid_def)

text \<open>
  Claim C4, as the source has it.  For the input
  \<open>research OAuth then build API then deploy to production\<close>, with task ids that are
  distinct and not empty, the pipeline returns the output form with exactly three
  tasks, the second depending on the first and the third on the second; the wave
  count is 3 (in the complexity record and in the execution result); the score is
  \<open>3 * (1 + 2/3) * 1.4 = 7.0\<close>, which is not above the bound 7 of the medium level: the
  level is medium and the strategy is \<open>parallel_pool\<close> (the claim says complex and
  \<open>dag_staged_waves\<close>).
\<close>

theorem oauth_pipeline:
  assumes "distinct [take 8 (uuid 0), take 8 (uuid 1), take 8 (uuid 2)]"
    and "take 8 (uuid 0) \<noteq> []" and "take 8 (uuid 1) \<noteq> []"
  shows "\<not> is_error (orchestrator_execute uuid pool reg oauth_input) \<and>
     map_option (\<lambda>d. map (\<lambda>t. (task_id t, description t, dependsOn t)) (tasks d))
       (p_decomposition (outcome_pipeline (orchestrator_execute uuid pool reg oauth_input))) =
       Some [(take 8 (uuid 0), ''research OAuth'', []),
             (take 8 (uuid 1), ''build API'', [take 8 (uuid 0)]),
             (take 8 (uuid 2), ''deploy to production'', [take 8 (uuid 1)])] \<and>
     map_option waves (p_complexity (outcome_pipeline (orchestrator_execute uuid pool reg oauth_input))) = Some 3 \<and>
     map_option e_waves (p_execution (outcome_pipeline (orchestrator_execute uuid pool reg oauth_input))) = Some 3 \<and>
     map_option score (p_complexity (outcome_pipeline (orchestrator_execute uuid pool reg oauth_input))) = Some 7 \<and>
     map_option level (p_complexity (outcome_pipeline (orchestrator_execute uuid pool reg oauth_input))) = Some ''medium'' \<and>
     map_option strategy (p_agents (outcome_pipeline (orchestrator_execute uuid pool reg oauth_input))) = Some ''parallel_pool''"
  by (rule oauth_summary[OF assms])

theorem oauth_pipeline_witness:
  "distinct [take 8 (sample_uuid 0), take 8 (sample_uuid 1), take 8 (sample_uuid 2)] \<and>
   take 8 (sample_uuid 0) \<noteq> [] \<and> take 8 (sample_uuid 1) \<noteq> [] \<and>
   map_option (\<lambda>d. map (\<lambda>t. (task_id t, description t, dependsOn t)) (tasks d))
       (p_decomposition (outcome_pipeline
          (orchestrator_execute sample_uuid failing_pool (new_registry 0) oauth_input))) =
       Some [(''1a2b3c4d'', ''research OAuth'', []),
             (''5e6f7a8b'', ''build API'', [''1a2b3c4d'']),
             (''9c0d1e2f'', ''deploy to production'', [''5e6f7a8b''])] \<and>
   map_option e_waves (p_execution (outcome_pipeline
          (orchestrator_execute sample_uuid failing_pool (new_registry 0) oauth_input))) = Some 3"
  using oauth_pipeline[OF sample_uuid_ids, of failing_pool "new_registry 0"]
  by (simp add: sample_ids)

text \<open>The level and the strategy of the claim fail.\<close>

theorem oauth_is_medium:
  "map_option level (p_complexity (outcome_pipeline
      (orchestrator_execute sample_uuid failing_pool (new_registry 0) oauth_input))) = Some ''medium'' \<and>
   map_option strategy (p_agents (outcome_pipeline
      (orchestrator_execute sample_uuid failing_pool (new_registry 0) oauth_input))) = Some ''parallel_pool''"
  using oauth_summary[OF sample_uuid_ids, of failing_pool "new_registry 0"] by simp


subsection \<open>Empty and blank input\<close>

lemma concat_map_Nil: "concat (map (\<lambda>x. []) xs) = []"
  by (induction xs) simp_all

lemma dropWhile_blank: "blank s \<Longrightarrow> dropWhile is_ws s = []"
  by (induction s) (auto simp: blank_def)

lemma toLowerCase_blank: "blank s \<Longrightarrow> toLowerCase s = s"
  by (induction s) (auto simp: blank_def toLowerCase_def toLowerChar_def is_ws_def)

lemma not_includes_blank:
  "blank s \<Longrightarrow> kw \<noteq> [] \<Longrightarrow> \<not> is_ws (hd kw) \<Longrightarrow> \<not> str_includes s kw"
proof (induction s)
  case Nil
  then show ?case by simp
next
  case (Cons c cs)
  have "\<not> startsWith (c # cs) kw"
  proof
    assume "startsWith (c # cs) kw"
    then have "take (length kw) (c # cs) = kw" by (simp add: startsWith_def)
    with Cons.prems(2) have "hd kw = c" by (cases kw) auto
    with Cons.prems show False by (simp add: blank_def)
  qed
  with Cons show ?case by (simp add: blank_def)
qed

lemma keywords_visible:
  "list_all (\<lambda>e. list_all (\<lambda>kw. kw \<noteq> [] \<and> \<not> is_ws (hd kw)) (pat_keywords (snd e))) patterns"
  by code_simp

lemma classify_blank:
  assumes "blank s"
  shows "classify (parseInput s) = general_intent"
proof -
  have none: "filter (str_includes s) (pat_keywords (snd e)) = []" if "e \<in> set patterns" for e
  proof -
    from keywords_visible that have "\<forall>kw\<in>set (pat_keywords (snd e)). kw \<noteq> [] \<and> \<not> is_ws (hd kw)"
      by (auto simp: list_all_iff)
    with not_includes_blank[OF assms] show ?thesis by (auto simp: filter_empty_conv)
  qed
  show ?thesis
    by (simp add: classify_def parseInput_def toLowerCase_blank[OF assms] Let_def
          general_intent_def case_prod_beta none concat_map_Nil cong: map_cong)
qed

lemma connector_letters:
  "list_all (\<lambda>k. k \<noteq> [] \<and> \<not> is_ws (hd k)) connectors"
  by code_simp

lemma match_at_blank:
  assumes "blank s"
  shows "match_at prev s = None"
proof -
  have "find (\<lambda>k. toLowerCase (take (length k) s) = k \<and>
                  word_boundary (is_word_char (last k)) (drop (length k) s)) connectors = None"
  proof -
    have "\<not> (toLowerCase (take (length k) s) = k)" if "k \<in> set connectors" for k
    proof
      assume eq: "toLowerCase (take (length k) s) = k"
      from connector_letters that have k: "k \<noteq> []" "\<not> is_ws (hd k)" by (auto simp: list_all_iff)
      have "blank (take (length k) s)" using assms by (auto simp: blank_def list_all_iff dest: in_set_takeD)
      from toLowerCase_blank[OF this] eq have "take (length k) s = k" by simp
      with k(1) have "hd k \<in> set s" by (metis hd_in_set in_set_takeD)
      with assms k(2) show False by (simp add: blank_def list_all_iff)
    qed
    then show ?thesis by (auto simp: find_None_iff)
  qed
  then have "match_connector prev s = None" by (simp add: match_connector_def)
  moreover have "c \<noteq> CHR ''.'' \<and> c \<noteq> CHR '';''" if "s = c # cs" for c cs
  proof -
    from assms that have "is_ws c" by (simp add: blank_def)
    then show ?thesis by (auto simp: is_ws_def)
  qed
  ultimately show ?thesis by (auto simp: match_at_def split: list.splits)
qed

lemma js_split_blank: "blank s \<Longrightarrow> js_split prev cur s = [Some (cur @ s)]"
proof (induction s arbitrary: prev cur)
  case Nil
  then show ?case by simp
next
  case (Cons c cs)
  from Cons.prems have "blank cs" by (simp add: blank_def)
  from Cons.IH[OF this] match_at_blank[OF Cons.prems] show ?case by simp
qed

lemma trim_blank: "blank s \<Longrightarrow> trim s = []"
  by (simp only: trim_def dropWhile_blank rev.simps dropWhile.simps)

lemma splitIntoSubtasks_blank:
  "blank s \<Longrightarrow> splitIntoSubtasks s = [\<lparr>st_text = s, st_connector = []\<rparr>]"
  by (simp add: splitIntoSubtasks_def js_split_blank trim_blank List.map_filter_def Let_def)

lemma split_ws_blank: "blank s \<Longrightarrow> length (split_ws s) \<le> 2"
proof (cases s)
  case Nil
  then show ?thesis by (simp add: split_ws_def)
next
  case (Cons c cs)
  assume "blank s"
  with Cons have c: "is_ws c" and "blank cs" by (simp_all add: blank_def)
  then have "split_ws_from [] (c # cs) = [[], []]"
    by (simp only: split_ws_from.simps dropWhile_blank if_True)
  with Cons show ?thesis by (simp add: split_ws_def)
qed

lemma decompose_blank:
  assumes "blank s"
  shows "decompose uuid (parseInput s) general_intent =
     \<lparr>tasks = [\<lparr>task_id = take 8 (uuid 0), task_index = 0, description = [],
                 task_type = ''general'', task_cluster = ''research'', dependsOn = [],
                 task_status = Pending, priority = 1\<rparr>],
      totalTasks = 1, hasParallelizable = False\<rparr>"
proof -
  have seq: "isSequentialMarker [] = False" by code_simp
  have pr: "calculatePriority s general_intent = 1"
    using split_ws_blank[OF assms] by (simp add: calculatePriority_def general_intent_def Let_def)
  show ?thesis
    by (simp add: decompose_def parseInput_def splitIntoSubtasks_blank[OF assms] Let_def seq pr
          trim_blank[OF assms])
       (simp add: general_intent_def)
qed


lemma risk_blank: "calculateRiskFactor [blank_task i] = 1"
proof -
  have "calculateRiskFactor (map (\<lambda>t. t\<lparr>task_id := [], dependsOn := []\<rparr>) [blank_task []]) = 1"
    by code_simp
  moreover have "map (\<lambda>t. t\<lparr>task_id := [], dependsOn := []\<rparr>) [blank_task i]
      = map (\<lambda>t. t\<lparr>task_id := [], dependsOn := []\<rparr>) [blank_task []]"
    by (simp add: blank_task_def)
  ultimately show ?thesis
    by (subst riskFactor_descriptions) simp
qed

lemma score_blank:
  "js_score \<lparr>tasks = [blank_task i], totalTasks = 1, hasParallelizable = False\<rparr>
     = Some simple_complexity"
proof -
  have w: "calculateWaves [blank_task i] = Some 1"
    by (simp add: calculateWaves_def blank_task_def Let_def)
  have len: "length [blank_task i] = 1" by simp
  have deps: "fold (\<lambda>t acc. acc + length (dependsOn t)) [blank_task i] 0 = 0"
    by (simp add: blank_task_def)
  have ac: "round (11 / 10 :: real) = 1" by (simp add: round_def)
  show ?thesis
    unfolding js_score_def Let_def
    by (simp only: decomposition.simps len deps risk_blank w option.case)
       (simp add: ac simple_complexity_def)
qed

lemma allocate_blank:
  "allocate (new_registry now) \<lparr>tasks = [blank_task i], totalTasks = 1, hasParallelizable = False\<rparr>
      simple_complexity general_intent =
   \<lparr>alloc_agents = [snd (seeded now (mk_agent ''researcher_v1'' ''research_analyst'' ''research''
        [''web-search'', ''documentation'', ''summarization'', ''comparison'']
        [''simple'', ''medium'', ''complex''] (lit 0.85) (lit 2.0)))],
    assignments = [(i, [''researcher_v1''])], strategy = ''direct_execution''\<rparr>"
  by (simp add: eval_allocate blank_task_def simple_complexity_def general_intent_def)

lemma dag_blank:
  "buildDAG \<lparr>tasks = [blank_task i], totalTasks = 1, hasParallelizable = False\<rparr> =
     \<lparr>dag_nodes = [(i, \<lparr>n_task = blank_task i, n_dependsOn = [], dependents = [],
                        n_status = Scheduled, n_result = None\<rparr>)],
      dag_waves = [[i]]\<rparr>"
  by (simp add: buildDAG_def computeWaves_def Let_def blank_task_def new_set_def
        set_add_def computeWaves_loop.simps ready_def split: prod.split)

lemma results_blank:
  "e_results (fst (dag_execute
      (buildDAG \<lparr>tasks = [blank_task i], totalTasks = 1, hasParallelizable = False\<rparr>)
      \<lparr>alloc_agents = sel, assignments = [(i, [''researcher_v1''])], strategy = st\<rparr> pool)) =
   [case pool (blank_task i) [''researcher_v1''] of
      Resolved out elapsed \<Rightarrow>
        \<lparr>r_taskId = i, r_description = [], r_status = Completed,
         r_output = Some (if out = [] then ''Task completed'' else out), r_error = None,
         r_duration = elapsed, r_agentId = Some ''researcher_v1'', r_wave = 0\<rparr>
    | Rejected msg \<Rightarrow>
        \<lparr>r_taskId = i, r_description = [], r_status = Failed, r_output = None,
         r_error = Some msg, r_duration = 0, r_agentId = Some ''researcher_v1'', r_wave = 0\<rparr>]"
  by (simp only: dag_blank)
     (simp add: dag_execute_def run_node_def Let_def blank_task_def split: pool_outcome.split)

lemma blank_request:
  assumes "blank s"
  shows "orchestrator_execute uuid pool (new_registry now) s =
     OutputForm
       \<lparr>p_intent = Some general_intent,
        p_decomposition = Some \<lparr>tasks = [blank_task (take 8 (uuid 0))], totalTasks = 1,
                                 hasParallelizable = False\<rparr>,
        p_complexity = Some simple_complexity,
        p_agents = Some \<lparr>alloc_agents = [snd (seeded now (mk_agent ''researcher_v1''
              ''research_analyst'' ''research''
              [''web-search'', ''documentation'', ''summarization'', ''comparison'']
              [''simple'', ''medium'', ''complex''] (lit 0.85) (lit 2.0)))],
            assignments = [(take 8 (uuid 0), [''researcher_v1''])],
            strategy = ''direct_execution''\<rparr>,
        p_execution = Some (fst (dag_execute
            (buildDAG \<lparr>tasks = [blank_task (take 8 (uuid 0))], totalTasks = 1,
                       hasParallelizable = False\<rparr>)
            \<lparr>alloc_agents = [snd (seeded now (mk_agent ''researcher_v1''
              ''research_analyst'' ''research''
              [''web-search'', ''documentation'', ''summarization'', ''comparison'']
              [''simple'', ''medium'', ''complex''] (lit 0.85) (lit 2.0)))],
             assignments = [(take 8 (uuid 0), [''researcher_v1''])],
             strategy = ''direct_execution''\<rparr> pool))\<rparr>"
proof -
  have d: "decompose uuid (parseInput s) general_intent =
      \<lparr>tasks = [blank_task (take 8 (uuid 0))], totalTasks = 1, hasParallelizable = False\<rparr>"
    using decompose_blank[OF assms] by (simp add: blank_task_def)
  show ?thesis
    by (simp only: orchestrator_execute_def Let_def classify_blank[OF assms] d score_blank
          option.case allocate_blank)
qed

lemma task_ids_blank:
  "map r_taskId (e_results (fst (dag_execute
      (buildDAG \<lparr>tasks = [blank_task i], totalTasks = 1, hasParallelizable = False\<rparr>)
      \<lparr>alloc_agents = sel, assignments = [(i, [''researcher_v1''])], strategy = st\<rparr> pool))) = [i]"
  by (simp only: results_blank) (simp split: pool_outcome.split)

lemma blank_spaces: "blank []" "blank ''   ''"
  by code_simp+

lemma blank_summary:
  assumes "blank s"
  shows "\<not> is_error (orchestrator_execute uuid pool (new_registry now) s) \<and>
     p_intent (outcome_pipeline (orchestrator_execute uuid pool (new_registry now) s))
       = Some general_intent \<and>
     map_option tasks
       (p_decomposition (outcome_pipeline (orchestrator_execute uuid pool (new_registry now) s)))
       = Some [blank_task (take 8 (uuid 0))] \<and>
     p_complexity (outcome_pipeline (orchestrator_execute uuid pool (new_registry now) s))
       = Some simple_complexity \<and>
     map_option assignments
       (p_agents (outcome_pipeline (orchestrator_execute uuid pool (new_registry now) s)))
       = Some [(take 8 (uuid 0), [''researcher_v1''])] \<and>
     map_option (\<lambda>ex. map r_taskId (e_results ex))
       (p_execution (outcome_pipeline (orchestrator_execute uuid pool (new_registry now) s)))
       = Some [take 8 (uuid 0)]"
  by (simp only: blank_request[OF assms] is_error_def outcome_pipeline_def outcome.case
        pipeline.simps option.map decomposition.simps allocation.simps task_ids_blank)
     simp

text \<open>
  Claim C10, as the source has it.  \<open>parseInput\<close> has no check: for an input that is
  empty or blank it returns the parsed record, and \<open>execute\<close> does not return the
  error form.  Stage 2 runs and gives the general intent; the pipeline goes on with
  one task whose description is empty, of simple complexity, assigned to
  \<open>researcher_v1\<close> and dispatched to the pool.
\<close>

theorem blank_input_runs_pipeline:
  assumes "blank s"
  shows "parseInput s =
       \<lparr>raw = s, tokens = split_ws s, p_length = length s, wordCount = length (split_ws s)\<rparr> \<and>
     \<not> is_error (orchestrator_execute uuid pool (new_registry now) s) \<and>
     p_intent (outcome_pipeline (orchestrator_execute uuid pool (new_registry now) s))
       = Some general_intent \<and>
     map_option tasks
       (p_decomposition (outcome_pipeline (orchestrator_execute uuid pool (new_registry now) s)))
       = Some [blank_task (take 8 (uuid 0))] \<and>
     p_complexity (outcome_pipeline (orchestrator_execute uuid pool (new_registry now) s))
       = Some simple_complexity \<and>
     map_option assignments
       (p_agents (outcome_pipeline (orchestrator_execute uuid pool (new_registry now) s)))
       = Some [(take 8 (uuid 0), [''researcher_v1''])] \<and>
     map_option (\<lambda>ex. map r_taskId (e_results ex))
       (p_execution (outcome_pipeline (orchestrator_execute uuid pool (new_registry now) s)))
       = Some [take 8 (uuid 0)]"
  using blank_summary[OF assms, of uuid pool now] by (simp add: parseInput_def)

theorem blank_input_runs_pipeline_witness:
  "blank ''   '' \<and>
   \<not> is_error (orchestrator_execute sample_uuid failing_pool (new_registry 0) ''   '') \<and>
   p_intent (outcome_pipeline (orchestrator_execute sample_uuid failing_pool (new_registry 0) ''   ''))
     = Some general_intent"
  using blank_input_runs_pipeline[OF blank_spaces(2), of sample_uuid failing_pool 0] blank_spaces(2)
  by simp

text \<open>The empty input is not answered with the error form, and stage 2 has run.\<close>

theorem empty_input_is_not_an_error:
  "blank [] \<and>
   \<not> is_error (orchestrator_execute sample_uuid failing_pool (new_registry 0) []) \<and>
   p_intent (outcome_pipeline (orchestrator_execute sample_uuid failing_pool (new_registry 0) []))
     = Some general_intent"
  using blank_summary[OF blank_spaces(1), of sample_uuid failing_pool 0] blank_spaces(1)
  by simp

end
